theory Spec2Isabelle
  imports Main "HOL-Library.Sublist"
begin

section \<open>Strings and the regular expressions of the source\<close>

text \<open>
  A JavaScript string is a sequence of UTF-16 code units. The model uses \<^typ>\<open>string\<close>, one
  \<^typ>\<open>char\<close> per code unit, for the code units U+0000 to U+00FF. In that range the
  regular-expression class \<^verbatim>\<open>\s\<close> and \<^verbatim>\<open>String.prototype.trim\<close> agree on
  the white space: TAB, LF, VT, FF, CR, SPACE and NBSP. The dot of a regular expression
  (without the \<^verbatim>\<open>s\<close> flag) matches every code unit except the line terminators LF and CR.
\<close>

definition is_space :: "char \<Rightarrow> bool" where
  "is_space c = (c \<in> set [CHR 0x09, CHR 0x0A, CHR 0x0B, CHR 0x0C, CHR 0x0D, CHR '' '', CHR 0xA0])"

definition is_line_terminator :: "char \<Rightarrow> bool" where
  "is_line_terminator c = (c = CHR 0x0A \<or> c = CHR 0x0D)"

definition re_dot :: "char \<Rightarrow> bool" where
  "re_dot c = (\<not> is_line_terminator c)"

definition is_pipe :: "char \<Rightarrow> bool" where
  "is_pipe c = (c = CHR ''|'')"

definition is_dollar :: "char \<Rightarrow> bool" where
  "is_dollar c = (c = CHR ''$'')"

text \<open>
  The regular expressions of the source are sequences of single-character atoms, each with
  at most one quantifier (\<^verbatim>\<open>*\<close>, \<^verbatim>\<open>*?\<close>, \<^verbatim>\<open>+\<close>, \<^verbatim>\<open>?\<close>), closed by an
  optional end anchor. \<open>rmatch\<close> is the backtracking matcher of ECMAScript on that
  fragment, started at the head of the string:
  a greedy quantifier tries the longer match first, a lazy one the shorter, and the first
  alternative whose continuation succeeds wins. It returns what is left of the string after
  the match.
\<close>

datatype re_item =
    ROne "char \<Rightarrow> bool"
  | RStar "char \<Rightarrow> bool"
  | RLazy "char \<Rightarrow> bool"
  | RPlus "char \<Rightarrow> bool"
  | REnd
  | ROpt "char \<Rightarrow> bool"

fun rmatch :: "re_item list \<Rightarrow> string \<Rightarrow> string option" where
  "rmatch [] s = Some s"
| "rmatch (ROne p # r) [] = None"
| "rmatch (ROne p # r) (c # cs) = (if p c then rmatch r cs else None)"
| "rmatch (RStar p # r) [] = rmatch r []"
| "rmatch (RStar p # r) (c # cs) =
     (if p c then (case rmatch (RStar p # r) cs of Some x \<Rightarrow> Some x | None \<Rightarrow> rmatch r (c # cs))
      else rmatch r (c # cs))"
| "rmatch (RLazy p # r) [] = rmatch r []"
| "rmatch (RLazy p # r) (c # cs) =
     (case rmatch r (c # cs) of Some x \<Rightarrow> Some x
      | None \<Rightarrow> (if p c then rmatch (RLazy p # r) cs else None))"
| "rmatch (RPlus p # r) [] = None"
| "rmatch (RPlus p # r) (c # cs) = (if p c then rmatch (RStar p # r) cs else None)"
| "rmatch (REnd # r) s = (if s = [] then rmatch r s else None)"
| "rmatch (ROpt p # r) [] = rmatch r []"
| "rmatch (ROpt p # r) (c # cs) =
     (if p c then (case rmatch r cs of Some x \<Rightarrow> Some x | None \<Rightarrow> rmatch r (c # cs))
      else rmatch r (c # cs))"

text \<open>
  The declarative reading of the same fragment, used to reason about \<open>rmatch\<close>:
  \<open>rsem re s rest\<close> holds when \<open>s\<close> is a word of the expression followed by \<open>rest\<close>.
\<close>

fun rsem :: "re_item list \<Rightarrow> string \<Rightarrow> string \<Rightarrow> bool" where
  "rsem [] s rest = (rest = s)"
| "rsem (ROne p # is) s rest = (\<exists>c cs. s = c # cs \<and> p c \<and> rsem is cs rest)"
| "rsem (RStar p # is) s rest = (\<exists>u v. s = u @ v \<and> list_all p u \<and> rsem is v rest)"
| "rsem (RLazy p # is) s rest = (\<exists>u v. s = u @ v \<and> list_all p u \<and> rsem is v rest)"
| "rsem (RPlus p # is) s rest = (\<exists>c u v. s = c # u @ v \<and> p c \<and> list_all p u \<and> rsem is v rest)"
| "rsem (REnd # is) s rest = (s = [] \<and> rsem is [] rest)"
| "rsem (ROpt p # is) s rest = (rsem is s rest \<or> (\<exists>c cs. s = c # cs \<and> p c \<and> rsem is cs rest))"

text \<open>\<^verbatim>\<open>re.test(s)\<close> for an expression that starts with \<^verbatim>\<open>^\<close> (no \<^verbatim>\<open>m\<close> flag): the match
  can only start at index 0.\<close>

definition re_test :: "re_item list \<Rightarrow> string \<Rightarrow> bool" where
  "re_test re s = (rmatch re s \<noteq> None)"

text \<open>\<^verbatim>\<open>/^[\s]*\|.*\|[\s]*$/\<close>\<close>

definition table_row_re :: "re_item list" where
  "table_row_re = [RStar is_space, ROne is_pipe, RStar re_dot, ROne is_pipe, RStar is_space, REnd]"

text \<open>\<^verbatim>\<open>/^[| \-:]+$/\<close>: the class holds the pipe, the space character, the dash and the colon.\<close>

definition is_sep_char :: "char \<Rightarrow> bool" where
  "is_sep_char c = (c \<in> set [CHR ''|'', CHR '' '', CHR ''-'', CHR '':''])"

definition separator_re :: "re_item list" where
  "separator_re = [RPlus is_sep_char, REnd]"

text \<open>\<^verbatim>\<open>/(\$.*?\$)/g\<close>: the capture group is the whole match.\<close>

definition math_re :: "re_item list" where
  "math_re = [ROne is_dollar, RLazy re_dot, ROne is_dollar]"

subsection \<open>String methods\<close>

definition trim :: "string \<Rightarrow> string" where
  "trim s = rev (dropWhile is_space (rev (dropWhile is_space s)))"

text \<open>\<^verbatim>\<open>s.split(c)\<close> for a one-character separator: never empty, \<^verbatim>\<open>"".split(c)\<close> is \<^verbatim>\<open>[""]\<close>.\<close>

fun split_on :: "char \<Rightarrow> string \<Rightarrow> string list" where
  "split_on d [] = [[]]"
| "split_on d (c # cs) =
     (if c = d then [] # split_on d cs
      else (case split_on d cs of [] \<Rightarrow> [[c]] | w # ws \<Rightarrow> (c # w) # ws))"

text \<open>\<^verbatim>\<open>s.includes(needle)\<close> and \<^verbatim>\<open>s.startsWith(p)\<close>, \<^verbatim>\<open>s.endsWith(p)\<close>.\<close>

fun js_includes :: "string \<Rightarrow> string \<Rightarrow> bool" where
  "js_includes [] needle = (needle = [])"
| "js_includes (c # cs) needle = (prefix needle (c # cs) \<or> js_includes cs needle)"

definition startsWith :: "string \<Rightarrow> string \<Rightarrow> bool" where
  "startsWith s p = prefix p s"

definition endsWith :: "string \<Rightarrow> string \<Rightarrow> bool" where
  "endsWith s p = suffix p s"

section \<open>Block segmenter (first effect of RoboticReadout)\<close>

datatype block = TextBlock string | TableBlock "string list list"

text \<open>\<^verbatim>\<open>/^[\s]*\|.*\|[\s]*$/.test(line) && line.includes('|')\<close>\<close>

definition isTableRow :: "string \<Rightarrow> bool" where
  "isTableRow line = (re_test table_row_re line \<and> js_includes line ''|'')"

text \<open>\<^verbatim>\<open>line.trim().match(/^[| \-:]+$/)\<close>, as a truth value.\<close>

definition isSeparator :: "string \<Rightarrow> bool" where
  "isSeparator line = re_test separator_re (trim line)"

text \<open>\<^verbatim>\<open>arr.filter((_, i, arr) => i > 0 && i < arr.length - 1)\<close>\<close>

definition filter_inner :: "'a list \<Rightarrow> 'a list" where
  "filter_inner arr =
     map snd (filter (\<lambda>(i, _). 0 < i \<and> int i < int (length arr) - 1) (enumerate 0 arr))"

definition rowCells :: "string \<Rightarrow> string list" where
  "rowCells line = map trim (filter_inner (split_on CHR ''|'' line))"

text \<open>The body of \<^verbatim>\<open>lines.forEach\<close>, on the pair of \<^verbatim>\<open>blocks\<close> and \<^verbatim>\<open>currentTable\<close>.\<close>

definition segment_step :: "block list \<times> string list list \<Rightarrow> string \<Rightarrow> block list \<times> string list list" where
  "segment_step st line =
     (case st of (blocks, currentTable) \<Rightarrow>
        if isTableRow line then
          (if isSeparator line then (blocks, currentTable)
           else (let cells = rowCells line in
                 if length cells > 0 then (blocks, currentTable @ [cells]) else (blocks, currentTable)))
        else
          (let (blocks1, table1) =
                 (if length currentTable > 0 then (blocks @ [TableBlock currentTable], [])
                  else (blocks, currentTable))
           in if trim line \<noteq> [] then (blocks1 @ [TextBlock line], table1) else (blocks1, table1)))"

definition segment_finish :: "block list \<times> string list list \<Rightarrow> block list" where
  "segment_finish st =
     (case st of (blocks, currentTable) \<Rightarrow>
        if length currentTable > 0 then blocks @ [TableBlock currentTable] else blocks)"

definition segment_lines :: "string list \<Rightarrow> block list" where
  "segment_lines ls = segment_finish (foldl segment_step ([], []) ls)"

definition segment :: "string \<Rightarrow> block list" where
  "segment text = segment_lines (split_on CHR 0x0A text)"

subsection \<open>What a block sequence holds, and what a line contributes\<close>

text \<open>
  The content of a block sequence in source order: the line of every text block and the
  rows of every table block. \<open>line_items\<close> is the content a single input line is expected
  to contribute: nothing for a discarded line (a separator row, or a blank line that is not a
  table row), its cells for any other table row, itself for any other line.
\<close>

datatype item = TextItem string | RowItem "string list"

fun block_items :: "block \<Rightarrow> item list" where
  "block_items (TextBlock line) = [TextItem line]"
| "block_items (TableBlock rows) = map RowItem rows"

definition line_items :: "string \<Rightarrow> item list" where
  "line_items line =
     (if isTableRow line then (if isSeparator line then [] else [RowItem (rowCells line)])
      else if trim line = [] then [] else [TextItem line])"

text \<open>The characters of a string that are not white space, in order.\<close>

definition strip_ws :: "string \<Rightarrow> string" where
  "strip_ws s = filter (\<lambda>c. \<not> is_space c) s"

text \<open>
  The table-row test as the specification words it: the line begins and ends with a pipe,
  ignoring surrounding white space, and has at least one pipe in its interior.
\<close>

definition spec_isTableRow :: "string \<Rightarrow> bool" where
  "spec_isTableRow line =
     (let t = trim line in
      startsWith t ''|'' \<and> endsWith t ''|'' \<and> CHR ''|'' \<in> set (butlast (tl t)))"

section \<open>Properties of the matcher\<close>

lemma rsem_star_here: "rsem is s rest \<Longrightarrow> rsem (RStar p # is) s rest"
  by (simp, rule exI [of _ "[]"]) simp

lemma rsem_star_more:
  assumes "p c" and "rsem (RStar p # is) cs rest"
  shows "rsem (RStar p # is) (c # cs) rest"
proof -
  from assms(2) obtain u v where "cs = u @ v" "list_all p u" "rsem is v rest" by auto
  with assms(1) have "c # cs = (c # u) @ v \<and> list_all p (c # u) \<and> rsem is v rest" by simp
  then show ?thesis unfolding rsem.simps by blast
qed

lemma rsem_lazy_here: "rsem is s rest \<Longrightarrow> rsem (RLazy p # is) s rest"
  by (simp, rule exI [of _ "[]"]) simp

lemma rsem_lazy_more:
  assumes "p c" and "rsem (RLazy p # is) cs rest"
  shows "rsem (RLazy p # is) (c # cs) rest"
proof -
  from assms(2) obtain u v where "cs = u @ v" "list_all p u" "rsem is v rest" by auto
  with assms(1) have "c # cs = (c # u) @ v \<and> list_all p (c # u) \<and> rsem is v rest" by simp
  then show ?thesis unfolding rsem.simps by blast
qed

lemma rsem_star_cases:
  "rsem (RStar p # is) s rest \<Longrightarrow>
     rsem is s rest \<or> (\<exists>c cs. s = c # cs \<and> p c \<and> rsem (RStar p # is) cs rest)"
  apply simp
  apply (elim exE conjE)
  subgoal for u v by (cases u) auto
  done

lemma rsem_lazy_cases:
  "rsem (RLazy p # is) s rest \<Longrightarrow>
     rsem is s rest \<or> (\<exists>c cs. s = c # cs \<and> p c \<and> rsem (RLazy p # is) cs rest)"
  apply simp
  apply (elim exE conjE)
  subgoal for u v by (cases u) auto
  done

lemma rmatch_sound: "rmatch re s = Some rest \<Longrightarrow> rsem re s rest"
proof (induction re s arbitrary: rest rule: rmatch.induct)
  case (1 s)
  then show ?case by simp
next
  case (2 p r)
  then show ?case by simp
next
  case (3 p r c cs)
  then show ?case by (simp split: if_splits)
next
  case (4 p r)
  then show ?case by (simp add: rsem_star_here del: rsem.simps)
next
  case (5 p r c cs)
  show ?case
  proof (cases "p c")
    case True
    show ?thesis
    proof (cases "rmatch (RStar p # r) cs")
      case None
      with 5 True show ?thesis by (simp add: rsem_star_here del: rsem.simps)
    next
      case (Some x)
      with 5 True show ?thesis by (simp add: rsem_star_more del: rsem.simps)
    qed
  next
    case False
    with 5 show ?thesis by (simp add: rsem_star_here del: rsem.simps)
  qed
next
  case (6 p r)
  then show ?case by (simp add: rsem_lazy_here del: rsem.simps)
next
  case (7 p r c cs)
  show ?case
  proof (cases "rmatch r (c # cs)")
    case None
    with 7 show ?thesis by (simp add: rsem_lazy_more del: rsem.simps split: if_splits)
  next
    case (Some x)
    with 7 show ?thesis by (simp add: rsem_lazy_here del: rsem.simps)
  qed
next
  case (8 p r)
  then show ?case by simp
next
  case (9 p r c cs)
  then have pc: "p c" and m: "rmatch (RStar p # r) cs = Some rest" by (simp_all split: if_splits)
  from 9(1) [OF pc m] obtain u v where "cs = u @ v" "list_all p u" "rsem r v rest" by auto
  with pc show ?case by auto
next
  case (10 r s)
  then show ?case by (simp split: if_splits)
next
  case (11 p r)
  then show ?case by simp
next
  case (12 p r c cs)
  then show ?case by (auto split: if_splits option.splits)
qed

lemma rmatch_complete: "rsem re s rest \<Longrightarrow> rmatch re s \<noteq> None"
proof (induction re s arbitrary: rest rule: rmatch.induct)
  case (1 s)
  then show ?case by simp
next
  case (2 p r)
  then show ?case by simp
next
  case (3 p r c cs)
  then show ?case by auto
next
  case (4 p r)
  from rsem_star_cases [OF 4(2)] have "rsem r [] rest" by simp
  with 4(1) show ?case by simp
next
  case (5 p r c cs)
  from rsem_star_cases [OF 5(4)]
  consider "rsem r (c # cs) rest" | "p c" "rsem (RStar p # r) cs rest" by auto
  then show ?case
  proof cases
    case 1
    show ?thesis
    proof (cases "p c")
      case True
      show ?thesis
      proof (cases "rmatch (RStar p # r) cs")
        case None
        from 5(2) [OF True None 1] obtain y where "rmatch r (c # cs) = Some y" by auto
        with True None show ?thesis by simp
      next
        case (Some x)
        with True show ?thesis by simp
      qed
    next
      case False
      from 5(3) [OF False 1] obtain y where "rmatch r (c # cs) = Some y" by auto
      with False show ?thesis by simp
    qed
  next
    case 2
    from 5(1) [OF 2] obtain y where "rmatch (RStar p # r) cs = Some y" by auto
    with 2(1) show ?thesis by simp
  qed
next
  case (6 p r)
  from rsem_lazy_cases [OF 6(2)] have "rsem r [] rest" by simp
  with 6(1) show ?case by simp
next
  case (7 p r c cs)
  from rsem_lazy_cases [OF 7(3)]
  consider "rsem r (c # cs) rest" | "p c" "rsem (RLazy p # r) cs rest" by auto
  then show ?case
  proof cases
    case 1
    from 7(1) [OF 1] obtain y where "rmatch r (c # cs) = Some y" by auto
    then show ?thesis by simp
  next
    case 2
    show ?thesis
    proof (cases "rmatch r (c # cs)")
      case None
      from 7(2) [OF None 2] obtain y where "rmatch (RLazy p # r) cs = Some y" by auto
      with None 2(1) show ?thesis by simp
    next
      case (Some x)
      then show ?thesis by simp
    qed
  qed
next
  case (8 p r)
  then show ?case by simp
next
  case (9 p r c cs)
  then obtain u v where pc: "p c" and "cs = u @ v" "list_all p u" "rsem r v rest" by auto
  then have "rsem (RStar p # r) cs rest" by auto
  with 9(1) pc show ?case by simp
next
  case (10 r s)
  then show ?case by auto
next
  case (11 p r)
  then show ?case by auto
next
  case (12 p r c cs)
  from 12(4) consider "rsem r (c # cs) rest" | "p c" "rsem r cs rest" by auto
  then show ?case
  proof cases
    case 1
    show ?thesis
    proof (cases "p c")
      case True
      show ?thesis
      proof (cases "rmatch r cs")
        case None
        from 12(2) [OF True None 1] obtain y where "rmatch r (c # cs) = Some y" by auto
        with True None show ?thesis by simp
      next
        case (Some x)
        with True show ?thesis by simp
      qed
    next
      case False
      from 12(3) [OF False 1] obtain y where "rmatch r (c # cs) = Some y" by auto
      with False show ?thesis by simp
    qed
  next
    case 2
    from 12(1) [OF 2] obtain y where "rmatch r cs = Some y" by auto
    with 2(1) show ?thesis by simp
  qed
qed

lemma re_test_iff: "re_test re s = (\<exists>rest. rsem re s rest)"
  unfolding re_test_def using rmatch_sound rmatch_complete by (metis not_None_eq)

lemma table_row_re_iff:
  "re_test table_row_re line =
     (\<exists>ws1 mid ws2. line = ws1 @ ''|'' @ mid @ ''|'' @ ws2 \<and> list_all is_space ws1
        \<and> list_all re_dot mid \<and> list_all is_space ws2)"
  (is "?L = ?R")
proof
  assume ?L
  then obtain rest where "rsem table_row_re line rest" by (auto simp: re_test_iff)
  then obtain ws1 v1 where 1: "line = ws1 @ v1" "list_all is_space ws1"
      and "rsem [ROne is_pipe, RStar re_dot, ROne is_pipe, RStar is_space, REnd] v1 rest"
    unfolding table_row_re_def rsem.simps(3) by blast
  then obtain v2 where 2: "v1 = CHR ''|'' # v2"
      and "rsem [RStar re_dot, ROne is_pipe, RStar is_space, REnd] v2 rest"
    unfolding rsem.simps(2) is_pipe_def by blast
  then obtain mid v3 where 3: "v2 = mid @ v3" "list_all re_dot mid"
      and "rsem [ROne is_pipe, RStar is_space, REnd] v3 rest"
    unfolding rsem.simps(3) by blast
  then obtain v4 where 4: "v3 = CHR ''|'' # v4"
      and "rsem [RStar is_space, REnd] v4 rest"
    unfolding rsem.simps(2) is_pipe_def by blast
  then obtain ws2 v5 where 5: "v4 = ws2 @ v5" "list_all is_space ws2"
      and "rsem [REnd] v5 rest"
    unfolding rsem.simps(3) by blast
  then have 6: "v5 = []" by simp
  from 1 2 3 4 5 6 have "line = ws1 @ ''|'' @ mid @ ''|'' @ ws2" by simp
  with 1(2) 3(2) 5(2) show ?R by blast
next
  assume ?R
  then obtain ws1 mid ws2 where l: "line = ws1 @ ''|'' @ mid @ ''|'' @ ws2"
    and a: "list_all is_space ws1" "list_all re_dot mid" "list_all is_space ws2" by blast
  have "rsem [REnd] [] []" by simp
  then have "rsem [RStar is_space, REnd] (ws2 @ []) []"
    unfolding rsem.simps(3) using a(3) by blast
  then have "rsem [ROne is_pipe, RStar is_space, REnd] (CHR ''|'' # ws2) []"
    unfolding rsem.simps(2) by (simp add: is_pipe_def)
  then have "rsem [RStar re_dot, ROne is_pipe, RStar is_space, REnd] (mid @ CHR ''|'' # ws2) []"
    unfolding rsem.simps(3) using a(2) by blast
  then have "rsem [ROne is_pipe, RStar re_dot, ROne is_pipe, RStar is_space, REnd]
      (CHR ''|'' # mid @ CHR ''|'' # ws2) []"
    unfolding rsem.simps(2) by (simp add: is_pipe_def)
  then have "rsem table_row_re (ws1 @ CHR ''|'' # mid @ CHR ''|'' # ws2) []"
    unfolding table_row_re_def rsem.simps(3) using a(1) by blast
  then show ?L unfolding re_test_iff l by auto
qed

section \<open>Properties of the segmenter\<close>

lemma js_includes_single: "js_includes s [c] = (c \<in> set s)"
  by (induction s) auto

lemma isTableRow_iff_re: "isTableRow line = re_test table_row_re line"
  unfolding isTableRow_def table_row_re_iff js_includes_single by auto

lemma length_split_on: "length (split_on d s) = Suc (length (filter (\<lambda>c. c = d) s))"
  by (induction s) (auto split: list.splits)

lemma split_on_not_Nil: "split_on d s \<noteq> []"
  using length_split_on [of d s] by auto

lemma filter_enumerate_butlast:
  "map snd (filter (\<lambda>(i, _). Suc i < k + length xs) (enumerate k xs)) = butlast xs"
proof (induction xs arbitrary: k)
  case Nil
  then show ?case by simp
next
  case (Cons y ys)
  from Cons [of "Suc k"] show ?case by (cases ys) simp_all
qed

lemma filter_inner_eq: "filter_inner xs = butlast (tl xs)"
proof (cases xs)
  case Nil
  then show ?thesis by (simp add: filter_inner_def)
next
  case (Cons y ys)
  have "filter (\<lambda>(i, _). 0 < i \<and> int i < int (length xs) - 1) (enumerate (Suc 0) ys)
      = filter (\<lambda>(i, _). Suc i < Suc 0 + length ys) (enumerate (Suc 0) ys)"
    by (rule filter_cong) (auto simp: Cons in_set_enumerate_eq)
  then show ?thesis
    using filter_enumerate_butlast [of "Suc 0" ys] by (simp add: filter_inner_def Cons)
qed

lemma rowCells_eq: "rowCells line = map trim (butlast (tl (split_on CHR ''|'' line)))"
  by (simp add: rowCells_def filter_inner_eq)

lemma isTableRow_two_pipes:
  assumes "isTableRow line"
  shows "2 \<le> length (filter (\<lambda>c. c = CHR ''|'') line)"
proof -
  from assms obtain ws1 mid ws2 where "line = ws1 @ ''|'' @ mid @ ''|'' @ ws2"
    unfolding isTableRow_iff_re table_row_re_iff by blast
  then show ?thesis by simp
qed

lemma rowCells_not_Nil: "isTableRow line \<Longrightarrow> rowCells line \<noteq> []"
proof -
  assume "isTableRow line"
  then have "3 \<le> length (split_on CHR ''|'' line)"
    using isTableRow_two_pipes [of line] by (simp add: length_split_on)
  moreover have "length (rowCells line) = length (split_on CHR ''|'' line) - 1 - 1"
    unfolding rowCells_eq by (simp del: One_nat_def)
  ultimately have "0 < length (rowCells line)" by linarith
  then show ?thesis by auto
qed

lemma segment_step_items:
  "segment_step (blocks, cur) line = (blocks', cur') \<Longrightarrow>
   concat (map block_items blocks') @ map RowItem cur' =
   concat (map block_items blocks) @ map RowItem cur @ line_items line"
  by (auto simp: segment_step_def line_items_def Let_def rowCells_not_Nil split: if_splits)

lemma foldl_segment_step_items:
  "foldl segment_step (blocks, cur) ls = (blocks', cur') \<Longrightarrow>
   concat (map block_items blocks') @ map RowItem cur' =
   concat (map block_items blocks) @ map RowItem cur @ concat (map line_items ls)"
proof (induction ls arbitrary: blocks cur)
  case Nil
  then show ?case by simp
next
  case (Cons l ls)
  obtain b1 c1 where s: "segment_step (blocks, cur) l = (b1, c1)" by (cases "segment_step (blocks, cur) l")
  with Cons.prems have "foldl segment_step (b1, c1) ls = (blocks', cur')" by simp
  from Cons.IH [OF this] segment_step_items [OF s] show ?case by simp
qed

lemma segment_finish_items:
  "concat (map block_items (segment_finish (blocks, cur))) = concat (map block_items blocks) @ map RowItem cur"
  by (simp add: segment_finish_def)

lemma segment_lines_items: "concat (map block_items (segment_lines ls)) = concat (map line_items ls)"
proof -
  obtain b c where f: "foldl segment_step ([], []) ls = (b, c)" by (cases "foldl segment_step ([], []) ls")
  from foldl_segment_step_items [OF f] show ?thesis
    by (simp add: segment_lines_def f segment_finish_items)
qed

lemma split_on_append: "split_on d (a @ d # b) = split_on d a @ split_on d b"
proof (induction a)
  case Nil
  then show ?case by simp
next
  case (Cons c a)
  obtain w ws where "split_on d a = w # ws"
    using split_on_not_Nil [of d a] by (cases "split_on d a") auto
  with Cons show ?case by simp
qed

lemma split_on_none: "d \<notin> set w \<Longrightarrow> split_on d w = [w]"
  by (induction w) auto

lemma split_on_join: "concat (map (\<lambda>w. w @ [d]) (split_on d s)) = s @ [d]"
proof (induction s)
  case Nil
  then show ?case by simp
next
  case (Cons c s)
  obtain w ws where "split_on d s = w # ws"
    using split_on_not_Nil [of d s] by (cases "split_on d s") auto
  with Cons show ?case by simp
qed

lemma not_space_pipe: "\<not> is_space CHR ''|''"
  by (simp add: is_space_def)

lemma pipe_not_space: "list_all is_space ws \<Longrightarrow> CHR ''|'' \<notin> set ws"
  using not_space_pipe by (auto simp: list_all_iff)

lemma rowCells_decomp:
  assumes "list_all is_space ws1" and "list_all is_space ws2"
  shows "rowCells (ws1 @ ''|'' @ mid @ ''|'' @ ws2) = map trim (split_on CHR ''|'' mid)"
proof -
  have "split_on CHR ''|'' (ws1 @ CHR ''|'' # (mid @ CHR ''|'' # ws2))
      = [ws1] @ split_on CHR ''|'' mid @ [ws2]"
    by (simp only: split_on_append split_on_none [OF pipe_not_space [OF assms(1)]]
          split_on_none [OF pipe_not_space [OF assms(2)]])
  then show ?thesis by (simp add: rowCells_eq split_on_not_Nil)
qed

lemma strip_ws_trim: "strip_ws (trim w) = strip_ws w"
proof -
  have a: "filter (\<lambda>c. \<not> is_space c) (dropWhile is_space u) = filter (\<lambda>c. \<not> is_space c) u" for u
    by (induction u) auto
  have "filter (\<lambda>c. \<not> is_space c) (rev (dropWhile is_space (rev (dropWhile is_space w))))
      = rev (filter (\<lambda>c. \<not> is_space c) (dropWhile is_space (rev (dropWhile is_space w))))"
    by (simp only: rev_filter)
  also have "\<dots> = rev (filter (\<lambda>c. \<not> is_space c) (rev (dropWhile is_space w)))"
    by (simp only: a)
  also have "\<dots> = filter (\<lambda>c. \<not> is_space c) (dropWhile is_space w)"
    by (simp only: rev_filter rev_rev_ident)
  finally have "filter (\<lambda>c. \<not> is_space c) (rev (dropWhile is_space (rev (dropWhile is_space w))))
      = filter (\<lambda>c. \<not> is_space c) w" by (simp only: a)
  then show ?thesis unfolding strip_ws_def trim_def .
qed

lemma strip_ws_all_space: "list_all is_space ws \<Longrightarrow> strip_ws ws = []"
  by (induction ws) (auto simp: strip_ws_def)

lemma strip_ws_append: "strip_ws (a @ b) = strip_ws a @ strip_ws b"
  by (simp add: strip_ws_def)

lemma strip_ws_concat: "strip_ws (concat xs) = concat (map strip_ws xs)"
  by (induction xs) (simp_all add: strip_ws_append, simp add: strip_ws_def)

lemma strip_ws_pipe: "strip_ws (CHR ''|'' # s) = CHR ''|'' # strip_ws s"
  by (simp add: strip_ws_def not_space_pipe)

lemma strip_ws_Nil: "strip_ws [] = []"
  by (simp add: strip_ws_def)

lemma row_data_kept:
  assumes "isTableRow line"
  shows "strip_ws line = ''|'' @ concat (map (\<lambda>cell. strip_ws cell @ ''|'') (rowCells line))"
proof -
  from assms obtain ws1 mid ws2 where l: "line = ws1 @ ''|'' @ mid @ ''|'' @ ws2"
    and w: "list_all is_space ws1" "list_all is_space ws2"
    unfolding isTableRow_iff_re table_row_re_iff by blast
  have f: "(\<lambda>cell. strip_ws cell @ ''|'') \<circ> trim = strip_ws \<circ> (\<lambda>w. w @ ''|'')"
    by (rule ext) (simp add: strip_ws_append strip_ws_trim strip_ws_pipe strip_ws_Nil)
  have "concat (map (\<lambda>cell. strip_ws cell @ ''|'') (rowCells line))
      = concat (map (strip_ws \<circ> (\<lambda>w. w @ ''|'')) (split_on CHR ''|'' mid))"
    unfolding l rowCells_decomp [OF w] map_map f ..
  also have "\<dots> = strip_ws (concat (map (\<lambda>w. w @ ''|'') (split_on CHR ''|'' mid)))"
    unfolding strip_ws_concat map_map ..
  also have "\<dots> = strip_ws (mid @ ''|'')"
    unfolding split_on_join ..
  finally have c: "concat (map (\<lambda>cell. strip_ws cell @ ''|'') (rowCells line)) = strip_ws mid @ ''|''"
    by (simp add: strip_ws_append strip_ws_pipe strip_ws_Nil)
  have "strip_ws line = strip_ws ws1 @ strip_ws ''|'' @ strip_ws mid @ strip_ws ''|'' @ strip_ws ws2"
    unfolding l strip_ws_append ..
  also have "\<dots> = ''|'' @ strip_ws mid @ ''|''"
    using w by (simp add: strip_ws_all_space strip_ws_pipe strip_ws_Nil)
  finally show ?thesis unfolding c .
qed

lemma separator_re_iff: "re_test separator_re s = (s \<noteq> [] \<and> list_all is_sep_char s)"
  (is "?L = ?R")
proof
  assume ?L
  then obtain rest where "rsem separator_re s rest" by (auto simp: re_test_iff)
  then obtain c u v where "s = c # u @ v" "is_sep_char c" "list_all is_sep_char u" "rsem [REnd] v rest"
    unfolding separator_re_def rsem.simps(5) by blast
  then show ?R by simp
next
  assume ?R
  then obtain c u where "s = c # u @ []" "is_sep_char c" "list_all is_sep_char u"
    by (cases s) auto
  moreover have "rsem [REnd] [] []" by simp
  ultimately have "rsem separator_re s []"
    unfolding separator_re_def rsem.simps(5) by blast
  then show ?L by (auto simp: re_test_iff)
qed

lemma trim_not_Nil_of_row:
  assumes "isTableRow line" shows "trim line \<noteq> []"
proof -
  from assms have "CHR ''|'' \<in> set line" by (simp add: isTableRow_def js_includes_single)
  then have "strip_ws line \<noteq> []"
    using not_space_pipe by (auto simp: strip_ws_def filter_empty_conv)
  then have "strip_ws (trim line) \<noteq> []" unfolding strip_ws_trim .
  then show ?thesis by (auto simp: strip_ws_Nil)
qed

lemma segment_step_separator:
  assumes "isTableRow line" and "isSeparator line"
  shows "segment_step st line = st"
  using assms by (cases st) (simp add: segment_step_def)

lemma foldl_skip:
  assumes "\<And>st. f st x = st"
  shows "foldl f s (xs @ x # ys) = foldl f s (xs @ ys)"
  by (simp add: assms)

lemma text_block_origin:
  assumes "TextBlock l \<in> set (segment_lines ls)"
  shows "l \<in> set ls \<and> \<not> isTableRow l \<and> trim l \<noteq> []"
proof -
  from assms have "TextItem l \<in> set (concat (map block_items (segment_lines ls)))"
    by (auto intro!: bexI [of _ "TextBlock l"])
  then obtain line where "line \<in> set ls" "TextItem l \<in> set (line_items line)"
    unfolding segment_lines_items by auto
  then show ?thesis by (auto simp: line_items_def split: if_splits)
qed

section \<open>The claims about the segmenter\<close>

text \<open>
  Claim C1. Segmentation is lossless. The content of the blocks of \<open>segment T\<close>, read in
  order, is the content contributed by the lines of \<open>T\<close> in source order: a line that is
  not a table row is kept whole as a text item unless it is blank, a table row is kept as the
  row of its cells unless it is a separator row, and nothing else is dropped or added. The
  cells of a table row hold every character of the row that is not white space, in order,
  between the same pipes.
\<close>

theorem segment_lossless:
  "concat (map block_items (segment T)) = concat (map line_items (split_on CHR 0x0A T))
   \<and> (\<forall>line. isTableRow line \<longrightarrow>
          strip_ws line = ''|'' @ concat (map (\<lambda>cell. strip_ws cell @ ''|'') (rowCells line)))"
proof (rule conjI)
  show "concat (map block_items (segment T)) = concat (map line_items (split_on CHR 0x0A T))"
    unfolding segment_def by (rule segment_lines_items)
  show "\<forall>line. isTableRow line \<longrightarrow>
          strip_ws line = ''|'' @ concat (map (\<lambda>cell. strip_ws cell @ ''|'') (rowCells line))"
    using row_data_kept by blast
qed

text \<open>The scenario of the specification, with one of its table rows.\<close>

theorem segment_lossless_witness:
  "concat (map block_items
      (segment ''GIVEN:\<newline>x=5\<newline>| a | b |\<newline>|---|---|\<newline>| 1 | 2 |\<newline>FINAL ANSWER: 7''))
     = [TextItem ''GIVEN:'', TextItem ''x=5'', RowItem [''a'', ''b''], RowItem [''1'', ''2''],
        TextItem ''FINAL ANSWER: 7'']
   \<and> isTableRow ''| a | b |'' \<and> strip_ws ''| a | b |'' = ''|a|b|''"
proof -
  let ?T = "''GIVEN:\<newline>x=5\<newline>| a | b |\<newline>|---|---|\<newline>| 1 | 2 |\<newline>FINAL ANSWER: 7''"
  have e: "concat (map line_items (split_on CHR 0x0A ?T))
      = [TextItem ''GIVEN:'', TextItem ''x=5'', RowItem [''a'', ''b''], RowItem [''1'', ''2''],
         TextItem ''FINAL ANSWER: 7'']"
    by code_simp
  have r: "isTableRow ''| a | b |''" by code_simp
  have c: "''|'' @ concat (map (\<lambda>cell. strip_ws cell @ ''|'') (rowCells ''| a | b |'')) = ''|a|b|''"
    by code_simp
  from segment_lossless [of ?T]
  have a: "concat (map block_items (segment ?T)) = concat (map line_items (split_on CHR 0x0A ?T))"
    and b: "isTableRow ''| a | b |'' \<longrightarrow>
          strip_ws ''| a | b |'' = ''|'' @ concat (map (\<lambda>cell. strip_ws cell @ ''|'') (rowCells ''| a | b |''))"
    by blast+
  from a e have 1: "concat (map block_items (segment ?T))
      = [TextItem ''GIVEN:'', TextItem ''x=5'', RowItem [''a'', ''b''], RowItem [''1'', ''2''],
         TextItem ''FINAL ANSWER: 7'']" by (rule trans)
  from b r have "strip_ws ''| a | b |'' = ''|'' @ concat (map (\<lambda>cell. strip_ws cell @ ''|'') (rowCells ''| a | b |''))"
    by (rule mp)
  then have 2: "strip_ws ''| a | b |'' = ''|a|b|''" using c by (rule trans)
  from 1 r 2 show ?thesis by (intro conjI)
qed

text \<open>
  Claim C2 reads the table-row test as: begins and ends with a pipe, ignoring surrounding
  white space, and has at least one interior pipe. The line \<^verbatim>\<open>| a |\<close> has no pipe
  between its first and its last one, yet the source treats it as a table row and makes a
  one-cell table of it.
\<close>

theorem isTableRow_interior_pipe_counterexample:
  "isTableRow ''| a |'' \<and> \<not> spec_isTableRow ''| a |'' \<and> segment ''| a |'' = [TableBlock [[''a'']]]"
  by code_simp

text \<open>
  Claim C2, amended. A line is a table row exactly when it is some white space, a pipe, any
  characters other than line terminators, a second pipe, and some white space: the first and
  the last character that are not white space are two distinct pipes, and no further pipe
  between them is asked for. A line that fails the test takes the text branch: the table in
  progress, if any, is closed, and the line is emitted as a text block unless it is blank.
\<close>

theorem isTableRow_shape:
  "isTableRow line =
     (\<exists>ws1 mid ws2. line = ws1 @ ''|'' @ mid @ ''|'' @ ws2 \<and> list_all is_space ws1
        \<and> list_all (\<lambda>c. \<not> is_line_terminator c) mid \<and> list_all is_space ws2)
   \<and> (\<not> isTableRow line \<longrightarrow>
        segment_step (blocks, cur) line =
          ((if cur \<noteq> [] then blocks @ [TableBlock cur] else blocks)
             @ (if trim line \<noteq> [] then [TextBlock line] else []), []))"
proof -
  have "re_dot = (\<lambda>c. \<not> is_line_terminator c)" by (rule ext) (simp add: re_dot_def)
  then have 1: "isTableRow line =
     (\<exists>ws1 mid ws2. line = ws1 @ ''|'' @ mid @ ''|'' @ ws2 \<and> list_all is_space ws1
        \<and> list_all (\<lambda>c. \<not> is_line_terminator c) mid \<and> list_all is_space ws2)"
    using table_row_re_iff [of line] by (simp only: isTableRow_iff_re)
  have 2: "\<not> isTableRow line \<longrightarrow>
        segment_step (blocks, cur) line =
          ((if cur \<noteq> [] then blocks @ [TableBlock cur] else blocks)
             @ (if trim line \<noteq> [] then [TextBlock line] else []), [])"
    by (simp add: segment_step_def)
  from 1 2 show ?thesis by (rule conjI)
qed

text \<open>Both directions at concrete lines.\<close>

theorem isTableRow_shape_witness:
  "isTableRow ''| a |'' \<and> \<not> isTableRow ''x=5''
   \<and> segment_step ([], [[''a'']]) ''x=5'' = ([TableBlock [[''a'']], TextBlock ''x=5''], [])"
proof -
  have "''| a |'' = [] @ ''|'' @ '' a '' @ ''|'' @ [] \<and> list_all is_space []
      \<and> list_all (\<lambda>c. \<not> is_line_terminator c) '' a '' \<and> list_all is_space []"
    by (simp add: is_line_terminator_def)
  then have "\<exists>ws1 mid ws2. ''| a |'' = ws1 @ ''|'' @ mid @ ''|'' @ ws2 \<and> list_all is_space ws1
        \<and> list_all (\<lambda>c. \<not> is_line_terminator c) mid \<and> list_all is_space ws2"
    by blast
  with isTableRow_shape [of "''| a |''"] have 1: "isTableRow ''| a |''" by blast
  have n: "\<not> isTableRow ''x=5''" by code_simp
  have t: "trim ''x=5'' \<noteq> []" by code_simp
  from isTableRow_shape [of "''x=5''" "[]" "[[''a'']]"] n
  have "segment_step ([], [[''a'']]) ''x=5'' =
          ((if [[''a'']] \<noteq> [] then [] @ [TableBlock [[''a'']]] else [])
             @ (if trim ''x=5'' \<noteq> [] then [TextBlock ''x=5''] else []), [])"
    by blast
  with t have 2: "segment_step ([], [[''a'']]) ''x=5'' = ([TableBlock [[''a'']], TextBlock ''x=5''], [])"
    by simp
  from 1 n 2 show ?thesis by (intro conjI)
qed

text \<open>
  Claim C3 reads a separator row as a row made of pipes, dashes, colons and white space.
  The character class of the source holds the space character only: a row whose dashes are
  set off by tabs matches the table-row expression, is made of pipes, dashes and white space,
  and still becomes a table with the cell \<^verbatim>\<open>-\<close>.
\<close>

theorem separator_tab_counterexample:
  "re_test table_row_re [CHR ''|'', CHR 0x09, CHR ''-'', CHR 0x09, CHR ''|'']
   \<and> list_all (\<lambda>c. is_space c \<or> c \<in> set ''|-:'') [CHR ''|'', CHR 0x09, CHR ''-'', CHR 0x09, CHR ''|'']
   \<and> segment [CHR ''|'', CHR 0x09, CHR ''-'', CHR 0x09, CHR ''|''] = [TableBlock [[''-'']]]"
  by code_simp

text \<open>
  Claim C3, amended. A line that matches the table-row expression and, once trimmed, is made
  of pipes, dashes, colons and space characters only is discarded: the segmenter state is the
  same after the line as before it (no cell is added, and the table in progress is neither
  closed nor opened), the blocks of any input are those of the input without the line, and
  the line is never emitted as a text block.
\<close>

theorem separator_discarded:
  assumes "re_test table_row_re line" and "list_all (\<lambda>c. c \<in> set ''| -:'') (trim line)"
  shows "segment_step st line = st
     \<and> segment_lines (xs @ line # ys) = segment_lines (xs @ ys)
     \<and> TextBlock line \<notin> set (segment_lines ls)"
proof -
  from assms(1) have row: "isTableRow line" by (simp only: isTableRow_iff_re)
  have "is_sep_char = (\<lambda>c. c \<in> set ''| -:'')"
    by (rule ext) (auto simp: is_sep_char_def)
  with assms(2) have "list_all is_sep_char (trim line)" by simp
  with trim_not_Nil_of_row [OF row] have sep: "isSeparator line"
    by (simp add: isSeparator_def separator_re_iff)
  have skip: "segment_step s line = s" for s
    using row sep by (rule segment_step_separator)
  have "foldl segment_step ([], []) (xs @ line # ys) = foldl segment_step ([], []) (xs @ ys)"
    using skip by (rule foldl_skip)
  then have 2: "segment_lines (xs @ line # ys) = segment_lines (xs @ ys)"
    by (simp only: segment_lines_def)
  have 3: "TextBlock line \<notin> set (segment_lines ls)"
    using text_block_origin [of line ls] row by blast
  from skip 2 3 show ?thesis by (intro conjI)
qed

text \<open>The separator row of a two-row table.\<close>

theorem separator_discarded_witness:
  "re_test table_row_re ''|---|---|'' \<and> list_all (\<lambda>c. c \<in> set ''| -:'') (trim ''|---|---|'')
   \<and> segment_step ([], [[''a'', ''b'']]) ''|---|---|'' = ([], [[''a'', ''b'']])
   \<and> segment_lines [''| a | b |'', ''|---|---|'', ''| 1 | 2 |''] = [TableBlock [[''a'', ''b''], [''1'', ''2'']]]
   \<and> TextBlock ''|---|---|'' \<notin> set (segment_lines [''|---|---|''])"
proof -
  have h1: "re_test table_row_re ''|---|---|''" by code_simp
  have h2: "list_all (\<lambda>c. c \<in> set ''| -:'') (trim ''|---|---|'')" by code_simp
  have e: "segment_lines ([''| a | b |''] @ [''| 1 | 2 |'']) = [TableBlock [[''a'', ''b''], [''1'', ''2'']]]"
    by code_simp
  from separator_discarded [OF h1 h2, of "([], [[''a'', ''b'']])" "[''| a | b |'']" "[''| 1 | 2 |'']" "[''|---|---|'']"]
  have a: "segment_step ([], [[''a'', ''b'']]) ''|---|---|'' = ([], [[''a'', ''b'']])"
    and b: "segment_lines ([''| a | b |''] @ ''|---|---|'' # [''| 1 | 2 |'']) = segment_lines ([''| a | b |''] @ [''| 1 | 2 |''])"
    and c: "TextBlock ''|---|---|'' \<notin> set (segment_lines [''|---|---|''])"
    by blast+
  from b e have "segment_lines ([''| a | b |''] @ ''|---|---|'' # [''| 1 | 2 |'']) = [TableBlock [[''a'', ''b''], [''1'', ''2'']]]"
    by (rule trans)
  then have d: "segment_lines [''| a | b |'', ''|---|---|'', ''| 1 | 2 |''] = [TableBlock [[''a'', ''b''], [''1'', ''2'']]]"
    by simp
  from h1 h2 a d c show ?thesis by (intro conjI)
qed

section \<open>Progressive revealer (second effect of RoboticReadout)\<close>

text \<open>
  The component state: the two \<^verbatim>\<open>useState\<close> cells and whether a timeout set by the second
  effect is pending. \<^verbatim>\<open>visibleBlockCount\<close> is a JavaScript number that only takes integer
  values here.
\<close>

record reveal_state =
  contentBlocks :: "block list"
  visibleBlockCount :: int
  pendingTimer :: bool

text \<open>
  The second effect, run after a render in which \<^verbatim>\<open>visibleBlockCount\<close> or
  \<^verbatim>\<open>contentBlocks\<close> changed: its cleanup clears the timeout of the previous run, and a new
  timeout of 30 ms is set only if \<^verbatim>\<open>visibleBlockCount < contentBlocks.length\<close>.
\<close>

definition reveal_effect :: "reveal_state \<Rightarrow> reveal_state" where
  "reveal_effect st = st\<lparr>pendingTimer := (visibleBlockCount st < int (length (contentBlocks st)))\<rparr>"

text \<open>
  A tick is the pending timeout firing: \<^verbatim>\<open>setVisibleBlockCount(v => v + 1)\<close>, then the effect
  again. Without a pending timeout nothing fires and the state stays as it is.
\<close>

definition tick :: "reveal_state \<Rightarrow> reveal_state" where
  "tick st =
     (if pendingTimer st then reveal_effect (st\<lparr>visibleBlockCount := visibleBlockCount st + 1\<rparr>)
      else st)"

text \<open>The end of the first effect: \<^verbatim>\<open>setContentBlocks(blocks); setVisibleBlockCount(0)\<close>.\<close>

definition rebuild :: "block list \<Rightarrow> reveal_state \<Rightarrow> reveal_state" where
  "rebuild blocks st = reveal_effect (st\<lparr>contentBlocks := blocks, visibleBlockCount := 0\<rparr>)"

text \<open>The first effect, run on mount and whenever the \<^verbatim>\<open>text\<close> prop changes.\<close>

definition setText :: "string \<Rightarrow> reveal_state \<Rightarrow> reveal_state" where
  "setText text st = rebuild (segment text) st"

text \<open>Mounting: the initial values of the \<^verbatim>\<open>useState\<close> cells, then the effects.\<close>

definition mount :: "string \<Rightarrow> reveal_state" where
  "mount text = setText text \<lparr>contentBlocks = [], visibleBlockCount = 0, pendingTimer = False\<rparr>"

text \<open>The states the component can be in: mounted, then any sequence of ticks and text changes.\<close>

inductive_set reachable :: "reveal_state set" where
  mounted: "mount text \<in> reachable"
| ticked: "st \<in> reachable \<Longrightarrow> tick st \<in> reachable"
| retexted: "st \<in> reachable \<Longrightarrow> setText text st \<in> reachable"

lemma tick_count:
  assumes "visibleBlockCount st = int j" and "pendingTimer st = (j < length (contentBlocks st))"
    and "j + k \<le> length (contentBlocks st)"
  shows "(tick ^^ k) st = st\<lparr>visibleBlockCount := int (j + k), pendingTimer := (j + k < length (contentBlocks st))\<rparr>"
  using assms
proof (induction k arbitrary: st j)
  case 0
  then show ?case by simp
next
  case (Suc k)
  let ?st1 = "tick st"
  from Suc.prems have p: "pendingTimer st" by simp
  have "?st1 = st\<lparr>visibleBlockCount := visibleBlockCount st + 1,
      pendingTimer := (visibleBlockCount st + 1 < int (length (contentBlocks st)))\<rparr>"
    using p by (simp add: tick_def reveal_effect_def)
  also have "visibleBlockCount st + 1 = int (Suc j)"
    using Suc.prems(1) by simp
  also have "(int (Suc j) < int (length (contentBlocks st))) = (Suc j < length (contentBlocks st))"
    by linarith
  finally have t: "?st1 = st\<lparr>visibleBlockCount := int (Suc j), pendingTimer := (Suc j < length (contentBlocks st))\<rparr>" .
  have "(tick ^^ Suc k) st = (tick ^^ k) ?st1" by (simp only: funpow_Suc_right o_apply)
  also have "\<dots> = ?st1\<lparr>visibleBlockCount := int (Suc j + k), pendingTimer := (Suc j + k < length (contentBlocks ?st1))\<rparr>"
    by (rule Suc.IH) (use Suc.prems t in simp_all)
  finally show ?case by (simp add: t)
qed

lemma tick_terminal:
  assumes "\<not> pendingTimer st"
  shows "(tick ^^ m) st = st"
  using assms by (induction m) (simp_all add: tick_def)

text \<open>
  Claim C4. Once a block sequence of length \<open>N\<close> is installed, the \<open>k\<close>-th tick leaves
  \<^verbatim>\<open>visibleBlockCount\<close> at \<open>k\<close> for every \<open>k\<close> up to \<open>N\<close>, so the count reaches \<open>N\<close>
  after exactly \<open>N\<close> ticks and not before; a timeout is pending exactly while the count is
  below \<open>N\<close>, so none is pending in the terminal state; and any number of further ticks
  leaves the terminal state as it is.
\<close>

theorem reveal_after_N_ticks:
  "(\<forall>k. k \<le> length blocks \<longrightarrow>
       visibleBlockCount ((tick ^^ k) (rebuild blocks st)) = int k
     \<and> contentBlocks ((tick ^^ k) (rebuild blocks st)) = blocks
     \<and> pendingTimer ((tick ^^ k) (rebuild blocks st)) = (k < length blocks))
   \<and> (\<forall>m. (tick ^^ (length blocks + m)) (rebuild blocks st) = (tick ^^ length blocks) (rebuild blocks st))"
proof -
  let ?s = "rebuild blocks st"
  have a: "visibleBlockCount ?s = int 0" "pendingTimer ?s = (0 < length (contentBlocks ?s))"
    and b: "contentBlocks ?s = blocks"
    by (simp_all add: rebuild_def reveal_effect_def)
  have k: "(tick ^^ k) ?s = ?s\<lparr>visibleBlockCount := int k, pendingTimer := (k < length blocks)\<rparr>"
    if "k \<le> length blocks" for k
    using tick_count [OF a, of k] that b by simp
  have "\<not> pendingTimer ((tick ^^ length blocks) ?s)" by (simp add: k)
  then have "(tick ^^ m) ((tick ^^ length blocks) ?s) = (tick ^^ length blocks) ?s" for m
    by (rule tick_terminal)
  then have "(tick ^^ (length blocks + m)) ?s = (tick ^^ length blocks) ?s" for m
    by (simp only: add.commute [of "length blocks" m] funpow_add o_apply)
  moreover have "\<forall>k. k \<le> length blocks \<longrightarrow>
       visibleBlockCount ((tick ^^ k) ?s) = int k
     \<and> contentBlocks ((tick ^^ k) ?s) = blocks
     \<and> pendingTimer ((tick ^^ k) ?s) = (k < length blocks)"
    by (simp add: k b)
  ultimately show ?thesis by blast
qed

text \<open>The scenario of the specification: four blocks, revealed over four ticks.\<close>

theorem reveal_after_N_ticks_witness:
  "visibleBlockCount ((tick ^^ 4)
      (mount ''GIVEN:\<newline>x=5\<newline>| a | b |\<newline>|---|---|\<newline>| 1 | 2 |\<newline>FINAL ANSWER: 7'')) = 4
   \<and> \<not> pendingTimer ((tick ^^ 4)
      (mount ''GIVEN:\<newline>x=5\<newline>| a | b |\<newline>|---|---|\<newline>| 1 | 2 |\<newline>FINAL ANSWER: 7''))
   \<and> (tick ^^ 5) (mount ''GIVEN:\<newline>x=5\<newline>| a | b |\<newline>|---|---|\<newline>| 1 | 2 |\<newline>FINAL ANSWER: 7'')
     = (tick ^^ 4) (mount ''GIVEN:\<newline>x=5\<newline>| a | b |\<newline>|---|---|\<newline>| 1 | 2 |\<newline>FINAL ANSWER: 7'')"
proof -
  let ?T = "''GIVEN:\<newline>x=5\<newline>| a | b |\<newline>|---|---|\<newline>| 1 | 2 |\<newline>FINAL ANSWER: 7''"
  let ?i = "\<lparr>contentBlocks = [], visibleBlockCount = 0, pendingTimer = False\<rparr>"
  have L: "length (segment ?T) = 4" by code_simp
  have m: "mount ?T = rebuild (segment ?T) ?i" by (simp only: mount_def setText_def)
  from reveal_after_N_ticks [of "segment ?T" ?i]
  have a: "\<forall>k. k \<le> length (segment ?T) \<longrightarrow>
       visibleBlockCount ((tick ^^ k) (mount ?T)) = int k
     \<and> contentBlocks ((tick ^^ k) (mount ?T)) = segment ?T
     \<and> pendingTimer ((tick ^^ k) (mount ?T)) = (k < length (segment ?T))"
    and b: "\<forall>m. (tick ^^ (length (segment ?T) + m)) (mount ?T) = (tick ^^ length (segment ?T)) (mount ?T)"
    unfolding m by blast+
  from a have "4 \<le> length (segment ?T) \<longrightarrow>
       visibleBlockCount ((tick ^^ 4) (mount ?T)) = int 4
     \<and> contentBlocks ((tick ^^ 4) (mount ?T)) = segment ?T
     \<and> pendingTimer ((tick ^^ 4) (mount ?T)) = (4 < length (segment ?T))" by (rule spec)
  then have 1: "visibleBlockCount ((tick ^^ 4) (mount ?T)) = 4"
    and 2: "\<not> pendingTimer ((tick ^^ 4) (mount ?T))"
    unfolding L by simp_all
  from b have "(tick ^^ (length (segment ?T) + 1)) (mount ?T) = (tick ^^ length (segment ?T)) (mount ?T)"
    by (rule spec)
  then have 3: "(tick ^^ 5) (mount ?T) = (tick ^^ 4) (mount ?T)"
    unfolding L by simp
  from 1 2 3 show ?thesis by (intro conjI)
qed

lemma reachable_inv:
  "st \<in> reachable \<Longrightarrow>
     0 \<le> visibleBlockCount st \<and> visibleBlockCount st \<le> int (length (contentBlocks st))
     \<and> (pendingTimer st = (visibleBlockCount st < int (length (contentBlocks st))))"
proof (induction rule: reachable.induct)
  case (mounted src)
  then show ?case by (simp add: mount_def setText_def rebuild_def reveal_effect_def)
next
  case (ticked st)
  then show ?case by (auto simp: tick_def reveal_effect_def)
next
  case (retexted st src)
  then show ?case by (simp add: setText_def rebuild_def reveal_effect_def)
qed

text \<open>
  Claim C5. In every state the component reaches by mounting, ticks and changes of the source
  text, \<^verbatim>\<open>0 \<le> visibleBlockCount \<le> contentBlocks.length\<close>; and whenever the blocks are rebuilt
  from a source text (on mount or on a change of the text), the blocks are the segmentation
  of that text and \<^verbatim>\<open>visibleBlockCount\<close> is 0.
\<close>

theorem reveal_invariant:
  "(st \<in> reachable \<longrightarrow>
      0 \<le> visibleBlockCount st \<and> visibleBlockCount st \<le> int (length (contentBlocks st)))
   \<and> visibleBlockCount (setText text st) = 0 \<and> contentBlocks (setText text st) = segment text
   \<and> visibleBlockCount (mount text) = 0 \<and> contentBlocks (mount text) = segment text"
  using reachable_inv [of st]
  by (simp add: mount_def setText_def rebuild_def reveal_effect_def)


text \<open>A state reached by a mount and a tick, and a change of text after it.\<close>

theorem reveal_invariant_witness:
  "0 \<le> visibleBlockCount (tick (mount ''a\<newline>b''))
   \<and> visibleBlockCount (tick (mount ''a\<newline>b'')) \<le> int (length (contentBlocks (tick (mount ''a\<newline>b''))))
   \<and> visibleBlockCount (tick (mount ''a\<newline>b'')) = 1
   \<and> visibleBlockCount (setText ''c'' (tick (mount ''a\<newline>b''))) = 0
   \<and> contentBlocks (setText ''c'' (tick (mount ''a\<newline>b''))) = [TextBlock ''c'']"
proof -
  let ?s = "tick (mount ''a\<newline>b'')"
  have r: "?s \<in> reachable" by (intro reachable.intros)
  have s: "segment ''c'' = [TextBlock ''c'']" by code_simp
  have v: "visibleBlockCount ?s = 1" by code_simp
  from reveal_invariant [of ?s "''c''"] r
  have "0 \<le> visibleBlockCount ?s" "visibleBlockCount ?s \<le> int (length (contentBlocks ?s))"
    "visibleBlockCount (setText ''c'' ?s) = 0" "contentBlocks (setText ''c'' ?s) = segment ''c''"
    by blast+
  with v s show ?thesis by simp
qed

section \<open>Block stylist (the text branch of the render of RoboticReadout)\<close>

definition isAnswer :: "string \<Rightarrow> bool" where
  "isAnswer line = js_includes line ''FINAL ANSWER:''"

definition isHeader :: "string \<Rightarrow> bool" where
  "isHeader line =
     (js_includes line ''GIVEN:'' \<or> js_includes line ''STEPS:'' \<or> startsWith line ''Part'')"

text \<open>
  The class of the block is chosen by \<^verbatim>\<open>isAnswer ? ... : isHeader ? ... : ...\<close>; the pulsing
  dot in front of the line is shown whenever \<^verbatim>\<open>isHeader\<close> holds.
\<close>

datatype text_class = Answer | Header | PlainText

definition text_style :: "string \<Rightarrow> text_class" where
  "text_style line = (if isAnswer line then Answer else if isHeader line then Header else PlainText)"

definition header_dot :: "string \<Rightarrow> bool" where
  "header_dot line = isHeader line"

lemma js_includes_sublist: "js_includes s needle = sublist needle s"
  by (induction s) (simp_all add: sublist_Cons_right)

text \<open>
  Claim C8. A text block that contains \<^verbatim>\<open>FINAL ANSWER:\<close> is styled as an answer; otherwise
  one that contains \<^verbatim>\<open>GIVEN:\<close> or \<^verbatim>\<open>STEPS:\<close>, or starts with \<^verbatim>\<open>Part\<close>, is styled as a
  header; any other is plain. The four examples of the specification are classified as it
  says.
\<close>

theorem stylist_priority:
  "text_style line =
     (if sublist ''FINAL ANSWER:'' line then Answer
      else if sublist ''GIVEN:'' line \<or> sublist ''STEPS:'' line \<or> prefix ''Part'' line then Header
      else PlainText)
   \<and> text_style ''FINAL ANSWER: 42'' = Answer
   \<and> text_style ''STEPS:'' = Header
   \<and> text_style ''Part A'' = Header
   \<and> text_style ''The result is 5'' = PlainText"
proof -
  have 1: "text_style line =
     (if sublist ''FINAL ANSWER:'' line then Answer
      else if sublist ''GIVEN:'' line \<or> sublist ''STEPS:'' line \<or> prefix ''Part'' line then Header
      else PlainText)"
    by (simp only: text_style_def isAnswer_def isHeader_def startsWith_def js_includes_sublist)
  have 2: "text_style ''FINAL ANSWER: 42'' = Answer" by code_simp
  have 3: "text_style ''STEPS:'' = Header" by code_simp
  have 4: "text_style ''Part A'' = Header" by code_simp
  have 5: "text_style ''The result is 5'' = PlainText" by code_simp
  from 1 2 3 4 5 show ?thesis by (intro conjI)
qed

text \<open>The answer marker wins over a header marker in the same line.\<close>

theorem stylist_priority_witness:
  "sublist ''FINAL ANSWER:'' ''STEPS: FINAL ANSWER: 7'' \<and> sublist ''STEPS:'' ''STEPS: FINAL ANSWER: 7''
   \<and> text_style ''STEPS: FINAL ANSWER: 7'' = Answer"
proof -
  have a: "''STEPS: FINAL ANSWER: 7'' = ''STEPS: '' @ ''FINAL ANSWER:'' @ '' 7''" by simp
  have 1: "sublist ''FINAL ANSWER:'' ''STEPS: FINAL ANSWER: 7''"
    unfolding sublist_def by (rule exI, rule exI, rule a)
  have b: "''STEPS: FINAL ANSWER: 7'' = [] @ ''STEPS:'' @ '' FINAL ANSWER: 7''" by simp
  have 2: "sublist ''STEPS:'' ''STEPS: FINAL ANSWER: 7''"
    unfolding sublist_def by (rule exI, rule exI, rule b)
  from stylist_priority [of "''STEPS: FINAL ANSWER: 7''"] 1
  have 3: "text_style ''STEPS: FINAL ANSWER: 7'' = Answer" by simp
  from 1 2 3 show ?thesis by (intro conjI)
qed

section \<open>Starting a quiz (startQuiz of App, generateQuiz of the service)\<close>

datatype exn = Exn string

record quiz_question =
  question :: string
  options :: "string list"
  correctAnswer :: int
  explanation :: string

record quiz =
  quiz_id :: string
  quiz_topic :: string
  quiz_level :: int
  questions :: "quiz_question list"

datatype view_mode = Chat | Quizzes | Stats | Saved

text \<open>
  The external collaborators of \<^verbatim>\<open>generateQuiz\<close>: the request to the generative model, which
  yields the response text or throws, \<^verbatim>\<open>JSON.parse\<close>, which yields the quiz or throws, and the
  printing of a number inside a template string.
\<close>

record quiz_env =
  generateContent :: "string \<Rightarrow> exn + string"
  json_parse :: "string \<Rightarrow> exn + quiz"
  num_to_string :: "int \<Rightarrow> string"

definition complexityDescs :: "string list" where
  "complexityDescs =
    [''WAEC BECE/SHS 1 Core Math basics.'',
     ''SHS 2/3 Core Math.'',
     ''WASSCE Elective Math Entry.'',
     ''WASSCE Elective Math Advanced.'',
     ''University Level 100: Logic, Sets, Matrices.'',
     ''University Level 200: Calculus, Probability.'',
     ''University Level 300: Linear Algebra, Differential Equations.'',
     ''University Level 400: Cryptography, Optimization.'',
     ''Post-Graduate/Expert.'',
     ''Hardcore Master/PHD entry.'']"

text \<open>\<^verbatim>\<open>[...][level - 1] || "Standard university complexity."\<close>: an index out of range reads
  \<^verbatim>\<open>undefined\<close>, which is falsy.\<close>

definition complexityDesc :: "int \<Rightarrow> string" where
  "complexityDesc level =
     (if 0 \<le> level - 1 \<and> level - 1 < int (length complexityDescs)
      then complexityDescs ! nat (level - 1)
      else ''Standard university complexity.'')"

definition quiz_prompt :: "quiz_env \<Rightarrow> string \<Rightarrow> int \<Rightarrow> string" where
  "quiz_prompt env topic level =
     ''Create a high-quality 10-question math quiz about '' @ topic
     @ '' specifically for Level '' @ num_to_string env level @ ''/10 difficulty.\<newline>  \<newline>''
     @ ''  CONTEXT: This quiz is for GHANAIAN students. \<newline>''
     @ ''  - Use Ghanaian names and local business scenarios.\<newline>''
     @ ''  - LEVEL CONTEXT: '' @ complexityDesc level @ ''\<newline>  \<newline>''
     @ ''  Use LaTeX for math notation ($...$). DO NOT USE EMOJIS in content. Generate exactly 10 questions.''"

text \<open>
  \<^verbatim>\<open>generateQuiz\<close>: whatever is thrown inside the \<^verbatim>\<open>try\<close> is logged and thrown again.
  \<^verbatim>\<open>response.text || "{}"\<close> replaces an empty response text by \<^verbatim>\<open>{}\<close>.
\<close>

definition generateQuiz :: "quiz_env \<Rightarrow> string \<Rightarrow> int \<Rightarrow> exn + quiz" where
  "generateQuiz env topic level =
     (case generateContent env (quiz_prompt env topic level) of
        Inl e \<Rightarrow> Inl e
      | Inr response_text \<Rightarrow>
          (case json_parse env (if response_text = [] then ''{}'' else response_text) of
             Inl e \<Rightarrow> Inl e
           | Inr q \<Rightarrow> Inr q))"

text \<open>The state of \<^verbatim>\<open>App\<close> that \<^verbatim>\<open>startQuiz\<close> and the quiz view touch, and the notices
  shown by \<^verbatim>\<open>alert\<close>, oldest first.\<close>

record app_state =
  isThinking :: bool
  viewMode :: view_mode
  activeQuiz :: "quiz option"
  currentQuestionIndex :: int
  quizAnswers :: "int option list"
  quizCategory :: "string option"
  selectedTopic :: "string option"
  isQuizComplete :: bool
  alerts :: "string list"

text \<open>The robot emoji U+1F916 of the notice, as its UTF-8 bytes.\<close>

definition robot_emoji :: string where
  "robot_emoji = [CHR 0xF0, CHR 0x9F, CHR 0xA4, CHR 0x96]"

definition quiz_failure_notice :: string where
  "quiz_failure_notice = ''Quiz generation protocol failed. '' @ robot_emoji @ '' System busy.''"

definition startQuiz :: "quiz_env \<Rightarrow> string \<Rightarrow> int \<Rightarrow> app_state \<Rightarrow> app_state" where
  "startQuiz env topic level st =
     (let st1 = st\<lparr>isThinking := True, selectedTopic := Some topic, isQuizComplete := False\<rparr>;
          st2 = (case generateQuiz env topic level of
                   Inr q \<Rightarrow> st1\<lparr>activeQuiz := Some q, quizAnswers := replicate 10 None,
                                 currentQuestionIndex := 0, viewMode := Quizzes\<rparr>
                 | Inl e \<Rightarrow> st1\<lparr>alerts := alerts st1 @ [quiz_failure_notice]\<rparr>)
      in st2\<lparr>isThinking := False\<rparr>)"

text \<open>
  Claim C9. When \<^verbatim>\<open>generateQuiz\<close> throws, \<^verbatim>\<open>startQuiz\<close> shows the failure notice and leaves
  the active quiz, the current question index, the answers, the view mode and the quiz
  category as they were before the call; the thinking flag is cleared.
\<close>

theorem startQuiz_failure_atomic:
  assumes "generateQuiz env topic level = Inl e"
  shows "alerts (startQuiz env topic level st) = alerts st @ [quiz_failure_notice]
     \<and> activeQuiz (startQuiz env topic level st) = activeQuiz st
     \<and> currentQuestionIndex (startQuiz env topic level st) = currentQuestionIndex st
     \<and> quizAnswers (startQuiz env topic level st) = quizAnswers st
     \<and> viewMode (startQuiz env topic level st) = viewMode st
     \<and> quizCategory (startQuiz env topic level st) = quizCategory st
     \<and> isThinking (startQuiz env topic level st) = False"
  using assms by (simp add: startQuiz_def)


text \<open>A request that fails, started from the quiz view with no active quiz.\<close>

theorem startQuiz_failure_atomic_witness:
  "generateQuiz \<lparr>generateContent = (\<lambda>_. Inl (Exn ''fetch failed'')), json_parse = (\<lambda>_. Inl (Exn ''SyntaxError'')),
        num_to_string = (\<lambda>_. ''1'')\<rparr> ''Number Theory (Modular Arithmetic)'' 1 = Inl (Exn ''fetch failed'')
   \<and> alerts (startQuiz \<lparr>generateContent = (\<lambda>_. Inl (Exn ''fetch failed'')), json_parse = (\<lambda>_. Inl (Exn ''SyntaxError'')),
        num_to_string = (\<lambda>_. ''1'')\<rparr> ''Number Theory (Modular Arithmetic)'' 1
        \<lparr>isThinking = False, viewMode = Quizzes, activeQuiz = None, currentQuestionIndex = 0, quizAnswers = [],
         quizCategory = Some ''Pure Mathematics'', selectedTopic = None, isQuizComplete = False, alerts = []\<rparr>)
       = [quiz_failure_notice]
   \<and> activeQuiz (startQuiz \<lparr>generateContent = (\<lambda>_. Inl (Exn ''fetch failed'')), json_parse = (\<lambda>_. Inl (Exn ''SyntaxError'')),
        num_to_string = (\<lambda>_. ''1'')\<rparr> ''Number Theory (Modular Arithmetic)'' 1
        \<lparr>isThinking = False, viewMode = Quizzes, activeQuiz = None, currentQuestionIndex = 0, quizAnswers = [],
         quizCategory = Some ''Pure Mathematics'', selectedTopic = None, isQuizComplete = False, alerts = []\<rparr>)
       = None"
proof -
  let ?env = "\<lparr>generateContent = (\<lambda>_. Inl (Exn ''fetch failed'')), json_parse = (\<lambda>_. Inl (Exn ''SyntaxError'')),
        num_to_string = (\<lambda>_. ''1'')\<rparr>"
  let ?st = "\<lparr>isThinking = False, viewMode = Quizzes, activeQuiz = None, currentQuestionIndex = 0, quizAnswers = [],
         quizCategory = Some ''Pure Mathematics'', selectedTopic = None, isQuizComplete = False, alerts = []\<rparr>"
  have h: "generateQuiz ?env ''Number Theory (Modular Arithmetic)'' 1 = Inl (Exn ''fetch failed'')"
    by (simp add: generateQuiz_def)
  from startQuiz_failure_atomic [OF h, of ?st]
  have "alerts (startQuiz ?env ''Number Theory (Modular Arithmetic)'' 1 ?st) = alerts ?st @ [quiz_failure_notice]"
    and "activeQuiz (startQuiz ?env ''Number Theory (Modular Arithmetic)'' 1 ?st) = activeQuiz ?st"
    by blast+
  with h show ?thesis by simp
qed

section \<open>Math fragment renderer (renderTextWithMath of RoboticReadout)\<close>

lemma rmatch_suffix: "rmatch re s = Some rest \<Longrightarrow> suffix rest s"
proof (induction re s arbitrary: rest rule: rmatch.induct)
  case (5 p r c cs)
  then show ?case by (auto split: if_splits option.splits intro: suffix_ConsI)
next
  case (7 p r c cs)
  then show ?case by (auto split: if_splits option.splits intro: suffix_ConsI)
next
  case (12 p r c cs)
  then show ?case by (auto split: if_splits option.splits intro: suffix_ConsI)
qed (auto split: if_splits intro: suffix_ConsI)

lemma rmatch_shorter:
  assumes "rmatch re s = Some rest" and "rest \<noteq> s"
  shows "length rest < length s"
proof -
  from rmatch_suffix [OF assms(1)] obtain pre where "s = pre @ rest" by (auto simp: suffix_def)
  with assms(2) show ?thesis by (cases pre) auto
qed

text \<open>
  \<^verbatim>\<open>s.split(re)\<close> for an expression whose only capture group is the whole match, as
  \<^verbatim>\<open>RegExp.prototype[Symbol.split]\<close> runs it on a non-empty string: \<open>acc\<close> is the part of the
  string between the end of the last match and the current position. A match is tried at
  every position; an empty match at the end of the last one is skipped; any other match
  closes the current piece and is itself emitted (the capture).
\<close>

function split_loop :: "re_item list \<Rightarrow> string \<Rightarrow> string \<Rightarrow> string list" where
  "split_loop re acc [] = [acc]"
| "split_loop re acc (c # cs) =
     (case rmatch re (c # cs) of
        None \<Rightarrow> split_loop re (acc @ [c]) cs
      | Some rest \<Rightarrow>
          (if rest = c # cs \<and> acc = [] then split_loop re (acc @ [c]) cs
           else acc # take (length (c # cs) - length rest) (c # cs) # split_loop re [] rest))"
  by pat_completeness auto
termination
proof (relation "measures [\<lambda>(re, acc, s). length s, \<lambda>(re, acc, s). length acc]", goal_cases)
  case 1
  show ?case by simp
next
  case (2 re acc c cs)
  show ?case by simp
next
  case (3 re acc c cs rest)
  show ?case by simp
next
  case (4 re acc c cs rest)
  show ?case
  proof (cases "rest = c # cs")
    case True
    with 4 show ?thesis by simp
  next
    case False
    from rmatch_shorter [OF 4(1) False] show ?thesis by simp
  qed
qed

text \<open>On the empty string the result is empty if the expression matches it, and the
  string itself otherwise.\<close>

definition js_split :: "re_item list \<Rightarrow> string \<Rightarrow> string list" where
  "js_split re s = (if s = [] then (if rmatch re [] \<noteq> None then [] else [[]]) else split_loop re [] s)"

text \<open>\<^verbatim>\<open>part.slice(1, -1)\<close>\<close>

definition slice_1_m1 :: "string \<Rightarrow> string" where
  "slice_1_m1 part = take (length part - 1 - 1) (drop 1 part)"

text \<open>
  A rendered fragment: a plain span, the markup KaTeX returned for a math source, or the raw
  part in the red span of the \<^verbatim>\<open>catch\<close> branch.
\<close>

datatype fragment = Plain string | Math string string | Flagged string

text \<open>
  \<open>katex\<close> stands for \<^verbatim>\<open>katex.renderToString(math, {throwOnError: false, displayMode: false})\<close>:
  it returns markup or throws. The \<^verbatim>\<open>try\<close> block catches whatever it throws.
\<close>

definition renderPart :: "(string \<Rightarrow> exn + string) \<Rightarrow> string \<Rightarrow> exn + fragment" where
  "renderPart katex part =
     (if startsWith part ''$'' \<and> endsWith part ''$'' then
        (let math = slice_1_m1 part in
         case katex math of
           Inr html \<Rightarrow> Inr (Math math html)
         | Inl e \<Rightarrow> Inr (Flagged part))
      else Inr (Plain part))"

text \<open>\<^verbatim>\<open>parts.map\<close> with a callback that may throw: the first exception ends the map.\<close>

fun map_result :: "('a \<Rightarrow> exn + 'b) \<Rightarrow> 'a list \<Rightarrow> exn + 'b list" where
  "map_result f [] = Inr []"
| "map_result f (x # xs) =
     (case f x of
        Inl e \<Rightarrow> Inl e
      | Inr y \<Rightarrow> (case map_result f xs of Inl e \<Rightarrow> Inl e | Inr ys \<Rightarrow> Inr (y # ys)))"

text \<open>The result is \<^verbatim>\<open>null\<close> (\<open>None\<close>) for the empty line.\<close>

definition renderTextWithMath :: "(string \<Rightarrow> exn + string) \<Rightarrow> string \<Rightarrow> exn + fragment list option" where
  "renderTextWithMath katex line =
     (if line = [] then Inr None
      else (case map_result (renderPart katex) (js_split math_re line) of
              Inl e \<Rightarrow> Inl e
            | Inr frags \<Rightarrow> Inr (Some frags)))"

lemma math_re_needs_dollar: "c \<noteq> CHR ''$'' \<Longrightarrow> rmatch math_re (c # cs) = None"
  by (simp add: math_re_def is_dollar_def)

lemma split_loop_no_dollar: "CHR ''$'' \<notin> set s \<Longrightarrow> split_loop math_re acc s = [acc @ s]"
proof (induction s arbitrary: acc)
  case Nil
  then show ?case by simp
next
  case (Cons c cs)
  then have "c \<noteq> CHR ''$''" and "CHR ''$'' \<notin> set cs" by auto
  with Cons.IH [of "acc @ [c]"] show ?case by (simp add: math_re_needs_dollar)
qed

lemma js_split_no_dollar:
  assumes "line \<noteq> []" and "CHR ''$'' \<notin> set line"
  shows "js_split math_re line = [line]"
  using assms split_loop_no_dollar [of line "[]"] by (simp add: js_split_def)

lemma map_result_Inr: "map_result (\<lambda>x. Inr (g x)) xs = Inr (map g xs)"
  by (induction xs) simp_all

lemma renderPart_Inr:
  "renderPart katex = (\<lambda>part. Inr
     (if startsWith part ''$'' \<and> endsWith part ''$'' then
        (case katex (slice_1_m1 part) of
           Inr html \<Rightarrow> Math (slice_1_m1 part) html
         | Inl e \<Rightarrow> Flagged part)
      else Plain part))"
  by (rule ext) (simp add: renderPart_def Let_def split: sum.splits)

lemma renderTextWithMath_parts:
  "line \<noteq> [] \<Longrightarrow> renderTextWithMath katex line = Inr (Some (map (\<lambda>part.
       if startsWith part ''$'' \<and> endsWith part ''$'' then
         (case katex (slice_1_m1 part) of
            Inr html \<Rightarrow> Math (slice_1_m1 part) html
          | Inl e \<Rightarrow> Flagged part)
       else Plain part) (js_split math_re line)))"
  by (simp add: renderTextWithMath_def renderPart_Inr map_result_Inr)

lemma slice_dollars: "slice_1_m1 (''$'' @ math @ ''$'') = math"
  by (simp add: slice_1_m1_def)

lemma renderPart_throw:
  assumes "katex math = Inl e"
  shows "renderPart katex (''$'' @ math @ ''$'') = Inr (Flagged (''$'' @ math @ ''$''))"
proof -
  have "startsWith (''$'' @ math @ ''$'') ''$''" by (simp add: startsWith_def)
  moreover have "endsWith (''$'' @ math @ ''$'') ''$''"
    unfolding endsWith_def suffix_def by (rule exI [of _ "''$'' @ math"]) simp
  ultimately show ?thesis
    using assms by (simp only: renderPart_def slice_dollars Let_def) simp
qed

text \<open>
  Claim C6. \<^verbatim>\<open>renderTextWithMath\<close> never raises, whatever the line and however KaTeX
  behaves: the result is always a value. Each part of a non-empty line is rendered on its
  own, and a \<^verbatim>\<open>$...$\<close> span on which typesetting throws is rendered as the raw span itself,
  flagged, in place of the markup.
\<close>

theorem renderTextWithMath_never_raises:
  "(\<exists>r. renderTextWithMath katex line = Inr r)
   \<and> (line \<noteq> [] \<longrightarrow> renderTextWithMath katex line = Inr (Some (map (\<lambda>part.
         if startsWith part ''$'' \<and> endsWith part ''$'' then
           (case katex (slice_1_m1 part) of
              Inr html \<Rightarrow> Math (slice_1_m1 part) html
            | Inl e \<Rightarrow> Flagged part)
         else Plain part) (js_split math_re line))))
   \<and> (katex math = Inl e \<longrightarrow>
         renderPart katex (''$'' @ math @ ''$'') = Inr (Flagged (''$'' @ math @ ''$'')))"
proof (intro conjI impI)
  show "\<exists>r. renderTextWithMath katex line = Inr r"
  proof (cases "line = []")
    case True
    then show ?thesis by (simp add: renderTextWithMath_def)
  next
    case False
    from renderTextWithMath_parts [OF this, of katex] show ?thesis by blast
  qed
next
  assume "line \<noteq> []"
  then show "renderTextWithMath katex line = Inr (Some (map (\<lambda>part.
         if startsWith part ''$'' \<and> endsWith part ''$'' then
           (case katex (slice_1_m1 part) of
              Inr html \<Rightarrow> Math (slice_1_m1 part) html
            | Inl e \<Rightarrow> Flagged part)
         else Plain part) (js_split math_re line)))"
    by (rule renderTextWithMath_parts)
next
  assume "katex math = Inl e"
  then show "renderPart katex (''$'' @ math @ ''$'') = Inr (Flagged (''$'' @ math @ ''$''))"
    by (rule renderPart_throw)
qed

text \<open>A typesetter that throws on every input.\<close>

theorem renderTextWithMath_never_raises_witness:
  "renderTextWithMath (\<lambda>m. Inl (Exn ''ParseError'')) ''a $x^2$ b''
     = Inr (Some [Plain ''a '', Flagged ''$x^2$'', Plain '' b''])
   \<and> renderPart (\<lambda>m. Inl (Exn ''ParseError'')) ''$x^2$'' = Inr (Flagged ''$x^2$'')"
proof -
  let ?k = "\<lambda>m :: string. Inl (Exn ''ParseError'') :: exn + string"
  have n: "''a $x^2$ b'' \<noteq> []" by simp
  have e: "map (\<lambda>part.
         if startsWith part ''$'' \<and> endsWith part ''$'' then
           (case ?k (slice_1_m1 part) of
              Inr html \<Rightarrow> Math (slice_1_m1 part) html
            | Inl e \<Rightarrow> Flagged part)
         else Plain part) (js_split math_re ''a $x^2$ b'')
      = [Plain ''a '', Flagged ''$x^2$'', Plain '' b'']"
    by code_simp
  have t: "?k ''x^2'' = Inl (Exn ''ParseError'')" by simp
  from renderTextWithMath_never_raises [of ?k "''a $x^2$ b''" "''x^2''" "Exn ''ParseError''"] n t
  have a: "renderTextWithMath ?k ''a $x^2$ b'' = Inr (Some (map (\<lambda>part.
         if startsWith part ''$'' \<and> endsWith part ''$'' then
           (case ?k (slice_1_m1 part) of
              Inr html \<Rightarrow> Math (slice_1_m1 part) html
            | Inl e \<Rightarrow> Flagged part)
         else Plain part) (js_split math_re ''a $x^2$ b'')))"
    and b: "renderPart ?k (''$'' @ ''x^2'' @ ''$'') = Inr (Flagged (''$'' @ ''x^2'' @ ''$''))"
    by blast+
  from a have 1: "renderTextWithMath ?k ''a $x^2$ b'' = Inr (Some [Plain ''a '', Flagged ''$x^2$'', Plain '' b''])"
    unfolding e .
  from b have 2: "renderPart ?k ''$x^2$'' = Inr (Flagged ''$x^2$'')" by simp
  from 1 2 show ?thesis by (rule conjI)
qed

text \<open>The parts of a split, captures included, make up the string again.\<close>

lemma split_loop_concat: "concat (split_loop re acc s) = acc @ s"
proof (induction re acc s rule: split_loop.induct)
  case (1 re acc)
  show ?case by simp
next
  case (2 re acc c cs)
  show ?case
  proof (cases "rmatch re (c # cs)")
    case None
    with 2(1) show ?thesis by simp
  next
    case (Some rest)
    show ?thesis
    proof (cases "rest = c # cs \<and> acc = []")
      case True
      with 2(2) [OF Some] Some show ?thesis by simp
    next
      case False
      from rmatch_suffix [OF Some] obtain pre where p: "c # cs = pre @ rest"
        by (auto simp: suffix_def)
      then have "length (c # cs) - length rest = length pre" by (metis add_diff_cancel_right' length_append)
      then have "take (length (c # cs) - length rest) (c # cs) = pre" using p by simp
      moreover from 2(3) [OF Some False] have "concat (split_loop re [] rest) = rest" by simp
      ultimately have e: "concat (acc # take (length (c # cs) - length rest) (c # cs) # split_loop re [] rest)
          = acc @ c # cs" using p by simp
      have "split_loop re acc (c # cs)
          = acc # take (length (c # cs) - length rest) (c # cs) # split_loop re [] rest"
        using Some False by (simp only: split_loop.simps option.case if_False)
      then show ?thesis using e by (simp only:)
    qed
  qed
qed

lemma js_split_concat: "line \<noteq> [] \<Longrightarrow> concat (js_split re line) = line"
  using split_loop_concat [of re "[]" line] by (simp add: js_split_def)

text \<open>
  A part that is a single dollar sign is not a match of the expression, but it starts and
  ends with a dollar sign, so it is typeset, with the empty source.
\<close>

lemma lone_dollar_is_math:
  assumes "katex [] = Inr html"
  shows "renderTextWithMath katex ''$'' = Inr (Some [Math [] html])"
proof -
  have s: "js_split math_re ''$'' = [''$'']" by code_simp
  have p: "startsWith ''$'' ''$''" "endsWith ''$'' ''$''" "slice_1_m1 ''$'' = []" by code_simp+
  have "''$'' \<noteq> []" by simp
  from renderTextWithMath_parts [OF this, of katex] show ?thesis
    unfolding s by (simp add: p assms)
qed

text \<open>
  Claim C7 says that every line without a dollar sign gives a single plain fragment equal to
  the line. The empty line has no dollar sign, and the guard \<^verbatim>\<open>if (!line) return null\<close>
  gives no fragment at all for it. Table cells can be empty, so the renderer does receive it.
\<close>

theorem empty_line_counterexample:
  "CHR ''$'' \<notin> set []
   \<and> renderTextWithMath (\<lambda>m. Inr m) [] = Inr None
   \<and> renderTextWithMath (\<lambda>m. Inr m) [] \<noteq> Inr (Some [Plain []])"
  by (simp add: renderTextWithMath_def)

text \<open>
  Claim C7, amended. Non-math spans pass through the renderer unchanged as plain text: for
  every non-empty line the parts of the split, read in order, make up the line again, and
  every part that does not both start and end with a dollar sign is rendered as a plain
  fragment equal to it. In particular every non-empty line without a dollar sign gives a
  single plain fragment equal to the line. The empty line gives \<^verbatim>\<open>null\<close>. The line
  \<^verbatim>\<open>$x^2$\<close> gives exactly one math fragment, of source \<^verbatim>\<open>x^2\<close>, between two empty plain
  fragments.
\<close>

theorem plain_passthrough:
  "(line \<noteq> [] \<and> CHR ''$'' \<notin> set line \<longrightarrow> renderTextWithMath katex line = Inr (Some [Plain line]))
   \<and> renderTextWithMath katex [] = Inr None
   \<and> (katex ''x^2'' = Inr html \<longrightarrow>
        renderTextWithMath katex ''$x^2$'' = Inr (Some [Plain [], Math ''x^2'' html, Plain []]))
   \<and> (line \<noteq> [] \<longrightarrow>
        concat (js_split math_re line) = line
        \<and> (\<exists>frags. renderTextWithMath katex line = Inr (Some frags)
              \<and> list_all2 (\<lambda>part frag. \<not> (startsWith part ''$'' \<and> endsWith part ''$'') \<longrightarrow> frag = Plain part)
                    (js_split math_re line) frags))"
proof (intro conjI impI)
  assume a: "line \<noteq> [] \<and> CHR ''$'' \<notin> set line"
  then obtain c cs where l: "line = c # cs" and c: "c \<noteq> CHR ''$''" by (cases line) auto
  then have "\<not> startsWith line ''$''" by (simp add: startsWith_def)
  with a show "renderTextWithMath katex line = Inr (Some [Plain line])"
    by (simp add: renderTextWithMath_parts js_split_no_dollar)
next
  show "renderTextWithMath katex [] = Inr None" by (simp add: renderTextWithMath_def)
next
  assume k: "katex ''x^2'' = Inr html"
  have s: "js_split math_re ''$x^2$'' = [[], ''$x^2$'', []]" by code_simp
  have p: "startsWith ''$x^2$'' ''$''" "endsWith ''$x^2$'' ''$''" "slice_1_m1 ''$x^2$'' = ''x^2''"
    "\<not> startsWith [] ''$''"
    by code_simp+
  have "''$x^2$'' \<noteq> []" by simp
  from renderTextWithMath_parts [OF this, of katex]
  show "renderTextWithMath katex ''$x^2$'' = Inr (Some [Plain [], Math ''x^2'' html, Plain []])"
    unfolding s by (simp add: p k)
next
  assume "line \<noteq> []"
  then show "concat (js_split math_re line) = line" by (rule js_split_concat)
next
  assume n: "line \<noteq> []"
  let ?f = "\<lambda>part.
       if startsWith part ''$'' \<and> endsWith part ''$'' then
         (case katex (slice_1_m1 part) of
            Inr html \<Rightarrow> Math (slice_1_m1 part) html
          | Inl e \<Rightarrow> Flagged part)
       else Plain part"
  have "list_all2 (\<lambda>part frag. \<not> (startsWith part ''$'' \<and> endsWith part ''$'') \<longrightarrow> frag = Plain part)
          (js_split math_re line) (map ?f (js_split math_re line))"
    by (simp add: list_all2_map2 list_all2_same)
  with renderTextWithMath_parts [OF n, of katex]
  show "\<exists>frags. renderTextWithMath katex line = Inr (Some frags)
              \<and> list_all2 (\<lambda>part frag. \<not> (startsWith part ''$'' \<and> endsWith part ''$'') \<longrightarrow> frag = Plain part)
                    (js_split math_re line) frags"
    by blast
qed

text \<open>A line of prose, the math line, and a line with prose around a math span, with a
  typesetter that succeeds.\<close>

theorem plain_passthrough_witness:
  "''x = 5'' \<noteq> [] \<and> CHR ''$'' \<notin> set ''x = 5''
   \<and> renderTextWithMath (\<lambda>m. Inr (''<math>'' @ m @ ''</math>'')) ''x = 5'' = Inr (Some [Plain ''x = 5''])
   \<and> renderTextWithMath (\<lambda>m. Inr (''<math>'' @ m @ ''</math>'')) ''$x^2$''
       = Inr (Some [Plain [], Math ''x^2'' ''<math>x^2</math>'', Plain []])
   \<and> js_split math_re ''so $x^2$ is 4'' = [''so '', ''$x^2$'', '' is 4'']
   \<and> (\<exists>frag. renderTextWithMath (\<lambda>m. Inr (''<math>'' @ m @ ''</math>'')) ''so $x^2$ is 4''
         = Inr (Some [Plain ''so '', frag, Plain '' is 4'']))"
proof -
  let ?k = "\<lambda>m :: string. Inr (''<math>'' @ m @ ''</math>'') :: exn + string"
  have h: "''x = 5'' \<noteq> [] \<and> CHR ''$'' \<notin> set ''x = 5''" by simp
  have k: "?k ''x^2'' = Inr ''<math>x^2</math>''" by simp
  from plain_passthrough [of "''x = 5''" ?k "''<math>x^2</math>''"] h k
  have 1: "renderTextWithMath ?k ''x = 5'' = Inr (Some [Plain ''x = 5''])"
    and 2: "renderTextWithMath ?k ''$x^2$'' = Inr (Some [Plain [], Math ''x^2'' ''<math>x^2</math>'', Plain []])"
    by blast+
  have n: "''so $x^2$ is 4'' \<noteq> []" by simp
  have s: "js_split math_re ''so $x^2$ is 4'' = [''so '', ''$x^2$'', '' is 4'']" by code_simp
  have p: "\<not> (startsWith ''so '' ''$'' \<and> endsWith ''so '' ''$'')"
    "\<not> (startsWith '' is 4'' ''$'' \<and> endsWith '' is 4'' ''$'')"
    by code_simp+
  from plain_passthrough [of "''so $x^2$ is 4''" ?k] n
  obtain frags where r: "renderTextWithMath ?k ''so $x^2$ is 4'' = Inr (Some frags)"
    and a: "list_all2 (\<lambda>part frag. \<not> (startsWith part ''$'' \<and> endsWith part ''$'') \<longrightarrow> frag = Plain part)
                    (js_split math_re ''so $x^2$ is 4'') frags"
    by blast
  from a obtain frag where "frags = [Plain ''so '', frag, Plain '' is 4'']"
    unfolding s using p by (auto simp: list_all2_Cons1)
  with r have 3: "\<exists>frag. renderTextWithMath ?k ''so $x^2$ is 4'' = Inr (Some [Plain ''so '', frag, Plain '' is 4''])"
    by blast
  from h 1 2 s 3 show ?thesis by (intro conjI) blast+
qed

section \<open>Local evaluation (tryLocalScientificEvaluation, solveMathProblem)\<close>

text \<open>\<^verbatim>\<open>String.prototype.toLowerCase\<close> on the code units U+0000 to U+00FF.\<close>

definition toLowerCase_char :: "char \<Rightarrow> char" where
  "toLowerCase_char c =
     (let n = (of_char c :: nat) in
      if (65 \<le> n \<and> n \<le> 90) \<or> (192 \<le> n \<and> n \<le> 222 \<and> n \<noteq> 215) then char_of (n + 32) else c)"

definition toLowerCase :: "string \<Rightarrow> string" where
  "toLowerCase s = map toLowerCase_char s"

text \<open>A literal pattern, as in \<^verbatim>\<open>/calculate/\<close>.\<close>

definition re_lit :: "string \<Rightarrow> re_item list" where
  "re_lit s = map (\<lambda>ch. ROne (\<lambda>c. c = ch)) s"

text \<open>
  \<^verbatim>\<open>s.replace(re, rep)\<close> with the \<^verbatim>\<open>g\<close> flag, for a replacement without \<^verbatim>\<open>$\<close> patterns:
  matches are looked for from left to right, each one is replaced, and the search goes on
  after it (one character further after an empty match).
\<close>

function re_replace_all :: "re_item list \<Rightarrow> string \<Rightarrow> string \<Rightarrow> string" where
  "re_replace_all re rep [] = (case rmatch re [] of Some rest \<Rightarrow> rep | None \<Rightarrow> [])"
| "re_replace_all re rep (c # cs) =
     (case rmatch re (c # cs) of
        None \<Rightarrow> c # re_replace_all re rep cs
      | Some rest \<Rightarrow>
          (if rest = c # cs then rep @ c # re_replace_all re rep cs
           else rep @ re_replace_all re rep rest))"
  by pat_completeness auto
termination
proof (relation "measure (\<lambda>(re, rep, s). length s)", goal_cases)
  case 1
  show ?case by simp
next
  case (2 re rep c cs)
  show ?case by simp
next
  case (3 re rep c cs rest)
  show ?case by simp
next
  case (4 re rep c cs rest)
  from rmatch_shorter [OF 4(1) 4(2)] show ?case by simp
qed

text \<open>\<^verbatim>\<open>s.replace(re, rep)\<close> without the \<^verbatim>\<open>g\<close> flag: the leftmost match only.\<close>

fun re_replace_first :: "re_item list \<Rightarrow> string \<Rightarrow> string \<Rightarrow> string" where
  "re_replace_first re rep [] = (case rmatch re [] of Some rest \<Rightarrow> rep @ rest | None \<Rightarrow> [])"
| "re_replace_first re rep (c # cs) =
     (case rmatch re (c # cs) of
        Some rest \<Rightarrow> rep @ rest
      | None \<Rightarrow> c # re_replace_first re rep cs)"

text \<open>\<^verbatim>\<open>re.test(s)\<close> for an expression without anchors: a match may start anywhere.\<close>

fun re_search :: "re_item list \<Rightarrow> string \<Rightarrow> bool" where
  "re_search re [] = (rmatch re [] \<noteq> None)"
| "re_search re (c # cs) = (rmatch re (c # cs) \<noteq> None \<or> re_search re cs)"

text \<open>The word characters of \<^verbatim>\<open>\b\<close>: \<^verbatim>\<open>[A-Za-z0-9_]\<close>.\<close>

definition is_digit :: "char \<Rightarrow> bool" where
  "is_digit c = (let n = (of_char c :: nat) in 48 \<le> n \<and> n \<le> 57)"

definition is_lower :: "char \<Rightarrow> bool" where
  "is_lower c = (let n = (of_char c :: nat) in 97 \<le> n \<and> n \<le> 122)"

definition is_upper :: "char \<Rightarrow> bool" where
  "is_upper c = (let n = (of_char c :: nat) in 65 \<le> n \<and> n \<le> 90)"

definition is_word_char :: "char \<Rightarrow> bool" where
  "is_word_char c = (is_lower c \<or> is_upper c \<or> is_digit c \<or> c = CHR ''_'')"

text \<open>
  \<^verbatim>\<open>s.replace(new RegExp("\\b" + key + "\\b", "g"), rep)\<close> for a key made of word characters:
  the key matches where the character before it (\<open>prev\<close>, if any) and the character after it
  (if any) are not word characters.
\<close>

definition word_boundary_after :: "string \<Rightarrow> bool" where
  "word_boundary_after s = (case s of [] \<Rightarrow> True | c # _ \<Rightarrow> \<not> is_word_char c)"

definition word_boundary_before :: "char option \<Rightarrow> bool" where
  "word_boundary_before prev = (case prev of None \<Rightarrow> True | Some c \<Rightarrow> \<not> is_word_char c)"

function replace_word :: "string \<Rightarrow> string \<Rightarrow> char option \<Rightarrow> string \<Rightarrow> string" where
  "replace_word key rep prev [] = []"
| "replace_word key rep prev (c # cs) =
     (if key \<noteq> [] \<and> word_boundary_before prev \<and> prefix key (c # cs)
         \<and> word_boundary_after (drop (length key) (c # cs))
      then rep @ replace_word key rep (Some (last key)) (drop (length key) (c # cs))
      else c # replace_word key rep (Some c) cs)"
  by pat_completeness auto
termination
  by (relation "measure (\<lambda>(key, rep, prev, s). length s)") auto

text \<open>\<^verbatim>\<open>parts.join(sep)\<close>\<close>

fun js_join :: "string \<Rightarrow> string list \<Rightarrow> string" where
  "js_join sep [] = []"
| "js_join sep [p] = p"
| "js_join sep (p # q # ps) = p @ sep @ js_join sep (q # ps)"

text \<open>\<^verbatim>\<open>mathMap\<close>, in insertion order.\<close>

definition mathMap :: "(string \<times> string) list" where
  "mathMap =
    [(''pi'', ''Math.PI''),
     (''e'', ''Math.E''),
     (''sin'', ''Math.sin''),
     (''cos'', ''Math.cos''),
     (''tan'', ''Math.tan''),
     (''asin'', ''Math.asin''),
     (''acos'', ''Math.acos''),
     (''atan'', ''Math.atan''),
     (''sqrt'', ''Math.sqrt''),
     (''cbrt'', ''Math.cbrt''),
     (''log'', ''Math.log10''),
     (''ln'', ''Math.log''),
     (''abs'', ''Math.abs''),
     (''exp'', ''Math.exp''),
     (''ceil'', ''Math.ceil''),
     (''floor'', ''Math.floor''),
     (''round'', ''Math.round''),
     (''^'', ''**'')]"

text \<open>\<^verbatim>\<open>Object.keys(mathMap).sort((a, b) => b.length - a.length)\<close>: a stable sort, longest
  key first.\<close>

definition sortedKeys :: "string list" where
  "sortedKeys = sort_key (\<lambda>k. - int (length k)) (map fst mathMap)"

text \<open>
  \<^verbatim>\<open>/^[0-9+\-*/**%().\s|sin|cos|tan|sqrt|cbrt|log|ln|exp|pi|e|abs|atan|acos|asin|ceil|floor|round]+$/\<close>:
  one character class. Inside the brackets the names are not alternatives: each of their
  letters, and the bar, is a member of the class.
\<close>

definition is_expr_char :: "char \<Rightarrow> bool" where
  "is_expr_char c =
     (is_digit c \<or> is_space c
      \<or> c \<in> set ''+-*/**%().|sin|cos|tan|sqrt|cbrt|log|ln|exp|pi|e|abs|atan|acos|asin|ceil|floor|round'')"

definition expressionRegex :: "re_item list" where
  "expressionRegex = [RPlus is_expr_char, REnd]"

text \<open>\<^verbatim>\<open>/Math\.[a-z0-9]+/g\<close> and \<^verbatim>\<open>/[a-zA-Z]/\<close>\<close>

definition math_name_re :: "re_item list" where
  "math_name_re = re_lit ''Math.'' @ [RPlus (\<lambda>c. is_lower c \<or> is_digit c)]"

definition letter_re :: "re_item list" where
  "letter_re = [ROne (\<lambda>c. is_lower c \<or> is_upper c)]"

text \<open>\<^verbatim>\<open>/\.?0+$/\<close>\<close>

definition trailing_zeros_re :: "re_item list" where
  "trailing_zeros_re = [ROpt (\<lambda>c. c = CHR ''.''), RPlus (\<lambda>c. c = CHR ''0''), REnd]"

text \<open>
  What the code takes from the JavaScript engine: \<^verbatim>\<open>eval\<close>, which yields a value or throws,
  and, for the numbers \<open>'n\<close> of the engine, \<^verbatim>\<open>isNaN\<close>, \<^verbatim>\<open>Number.isInteger\<close>,
  \<^verbatim>\<open>toString()\<close> and \<^verbatim>\<open>toFixed(6)\<close>.
\<close>

datatype 'n js_value = JSNumber 'n | JSOther

record 'n js_env =
  js_eval :: "string \<Rightarrow> exn + 'n js_value"
  isNaN :: "'n \<Rightarrow> bool"
  isInteger :: "'n \<Rightarrow> bool"
  num_toString :: "'n \<Rightarrow> string"
  toFixed6 :: "'n \<Rightarrow> string"

record MathResult =
  content :: "string option"
  topic :: "string option"
  diagramPrompt :: "string option"
  error :: "string option"
  message :: "string option"

definition sanitize :: "string \<Rightarrow> string" where
  "sanitize query =
     trim (re_replace_all (re_lit ''?'') []
       (re_replace_all (re_lit ''evaluate'') []
         (re_replace_all (re_lit ''what is'') []
           (re_replace_all (re_lit ''solve'') []
             (re_replace_all (re_lit ''calculate'') [] (toLowerCase query))))))"

text \<open>The body of the \<^verbatim>\<open>forEach\<close> over the sorted keys.\<close>

definition substitute_key :: "string \<Rightarrow> string \<Rightarrow> string" where
  "substitute_key jsEvalString key =
     (if key = ''^'' then js_join ''**'' (split_on CHR ''^'' jsEvalString)
      else replace_word key (case map_of mathMap key of Some v \<Rightarrow> v | None \<Rightarrow> ''undefined'')
             None jsEvalString)"

definition toEvalString :: "string \<Rightarrow> string" where
  "toEvalString sanitized = foldl substitute_key sanitized sortedKeys"

definition local_content :: "string \<Rightarrow> string \<Rightarrow> string" where
  "local_content sanitized formattedResult =
     robot_emoji @ '' Immediate computation via local arithmetic unit.\<newline>\<newline>''
     @ ''GIVEN:\<newline>Expression: $'' @ re_replace_all (re_lit ''**'') ''^'' sanitized @ ''$\<newline>\<newline>''
     @ ''STEPS:\<newline>1. Input parsed by High-Speed Calculation Core.\<newline>''
     @ ''2. Scientific constants and functions normalized.\<newline>''
     @ ''3. Execution of arithmetic sequence successful.\<newline>\<newline>''
     @ ''FINAL ANSWER:\<newline>$'' @ formattedResult @ ''$''"

definition tryLocalScientificEvaluation :: "'n js_env \<Rightarrow> string \<Rightarrow> MathResult option" where
  "tryLocalScientificEvaluation env query =
     (let sanitized = sanitize query in
      if \<not> re_test expressionRegex sanitized then None
      else
        (let jsEvalString = toEvalString sanitized in
         if re_search letter_re (re_replace_all math_name_re [] jsEvalString) then None
         else
           (case js_eval env jsEvalString of
              Inl e \<Rightarrow> None
            | Inr JSOther \<Rightarrow> None
            | Inr (JSNumber result) \<Rightarrow>
                if isNaN env result then None
                else
                  (let formattedResult =
                         (if isInteger env result then num_toString env result
                          else re_replace_first trailing_zeros_re [] (toFixed6 env result))
                   in Some \<lparr>content = Some (local_content sanitized formattedResult),
                            topic = Some ''Quick Compute'', diagramPrompt = None,
                            error = None, message = None\<rparr>))))"

text \<open>
  \<^verbatim>\<open>solveMathProblem\<close>: \<open>remote\<close> stands for the rest of the function after the local
  attempt, which builds the request, awaits the external generative model and turns its
  answer or its failure into a result. The outcome records which of the two produced the
  result.
\<close>

datatype solve_outcome = LocalUnit MathResult | ExternalAI MathResult

definition solveMathProblem ::
  "'n js_env \<Rightarrow> (string \<Rightarrow> 'h \<Rightarrow> 'i option \<Rightarrow> MathResult) \<Rightarrow> string \<Rightarrow> 'h \<Rightarrow> 'i option \<Rightarrow> solve_outcome" where
  "solveMathProblem env remote query history img =
     (case img of
        None \<Rightarrow>
          (case tryLocalScientificEvaluation env query of
             Some localResult \<Rightarrow> LocalUnit localResult
           | None \<Rightarrow> ExternalAI (remote query history img))
      | Some i \<Rightarrow> ExternalAI (remote query history img))"


lemma local_sum_computed:
  assumes "js_eval env ''2+3'' = Inr (JSNumber n)" and "isNaN env n = False" and "isInteger env n"
  shows "tryLocalScientificEvaluation env ''What is 2+3?'' =
     Some \<lparr>content = Some (local_content ''2+3'' (num_toString env n)),
           topic = Some ''Quick Compute'', diagramPrompt = None, error = None, message = None\<rparr>"
proof -
  have a: "sanitize ''What is 2+3?'' = ''2+3''" by code_simp
  have b: "re_test expressionRegex ''2+3''" by code_simp
  have c: "toEvalString ''2+3'' = ''2+3''" by code_simp
  have d: "re_search letter_re (re_replace_all math_name_re [] ''2+3'') = False" by code_simp
  show ?thesis
    unfolding tryLocalScientificEvaluation_def Let_def a c d
    using b assms by simp
qed

lemma constant_pi_rejected: "tryLocalScientificEvaluation env ''pi'' = None"
  by code_simp

lemma constant_in_product_rejected: "tryLocalScientificEvaluation env ''2*pi'' = None"
  by code_simp

lemma constant_e_rejected: "tryLocalScientificEvaluation env ''e'' = None"
  by code_simp

lemma pi_eval_string: "re_test expressionRegex (sanitize ''pi'') \<and> toEvalString (sanitize ''pi'') = ''Math.PI''"
  by code_simp

text \<open>
  Claim C10 says that a query without image made of numbers, operators, parentheses and the
  recognised function and constant names is answered by the local unit. \<^verbatim>\<open>mathMap\<close> names
  \<^verbatim>\<open>pi\<close> and \<^verbatim>\<open>e\<close> and maps them to \<^verbatim>\<open>Math.PI\<close> and \<^verbatim>\<open>Math.E\<close>, but the check for
  left-over letters removes only names of the shape \<^verbatim>\<open>Math\.[a-z0-9]+\<close>, which the upper-case
  \<^verbatim>\<open>PI\<close> and \<^verbatim>\<open>E\<close> do not have. For the query \<^verbatim>\<open>pi\<close> the expression passes the
  character test and becomes \<^verbatim>\<open>Math.PI\<close>; the local unit then returns \<^verbatim>\<open>null\<close> before
  \<^verbatim>\<open>eval\<close> is reached, whatever the engine would compute, and \<^verbatim>\<open>solveMathProblem\<close> goes on
  to the external model. The same happens for \<^verbatim>\<open>2*pi\<close> and for \<^verbatim>\<open>e\<close>.
\<close>

theorem local_constant_falls_through:
  "re_test expressionRegex (sanitize ''pi'') \<and> toEvalString (sanitize ''pi'') = ''Math.PI''
   \<and> tryLocalScientificEvaluation env ''pi'' = None
   \<and> solveMathProblem env remote ''pi'' history None = ExternalAI (remote ''pi'' history None)
   \<and> tryLocalScientificEvaluation env ''2*pi'' = None
   \<and> tryLocalScientificEvaluation env ''e'' = None"
  using pi_eval_string
  by (simp add: solveMathProblem_def constant_pi_rejected constant_in_product_rejected constant_e_rejected)

text \<open>An engine whose \<^verbatim>\<open>eval\<close> would return a number for every expression.\<close>

theorem local_constant_falls_through_witness:
  "solveMathProblem
     \<lparr>js_eval = (\<lambda>s. Inr (JSNumber (3 :: int))), isNaN = (\<lambda>n. False), isInteger = (\<lambda>n. True),
      num_toString = (\<lambda>n. ''3''), toFixed6 = (\<lambda>n. ''3.000000'')\<rparr>
     (\<lambda>q h i. \<lparr>content = Some ''remote'', topic = Some ''Computation'', diagramPrompt = None,
                error = None, message = None\<rparr>)
     ''pi'' () (None :: unit option)
   = ExternalAI \<lparr>content = Some ''remote'', topic = Some ''Computation'', diagramPrompt = None,
                error = None, message = None\<rparr>"
proof -
  let ?env = "\<lparr>js_eval = (\<lambda>s. Inr (JSNumber (3 :: int))), isNaN = (\<lambda>n. False), isInteger = (\<lambda>n. True),
      num_toString = (\<lambda>n. ''3''), toFixed6 = (\<lambda>n. ''3.000000'')\<rparr>"
  let ?remote = "\<lambda>(q :: string) (h :: unit) (i :: unit option).
      \<lparr>content = Some ''remote'', topic = Some ''Computation'', diagramPrompt = None,
       error = None, message = None\<rparr>"
  from local_constant_falls_through [of ?env ?remote "()"]
  have "solveMathProblem ?env ?remote ''pi'' () None = ExternalAI (?remote ''pi'' () None)"
    by blast
  then show ?thesis by simp
qed

end
